theory Spec2Isabelle
  imports Main "HOL-Library.Char_ord" "HOL-Library.List_Lexorder"
    "HOL-Library.Product_Lexorder" "HOL-Library.Multiset" "HOL-Library.Sublist"
begin

section \<open>Strings, bytes and percent-encoding\<close>

text \<open>
  A JavaScript string is modelled by a \<open>string\<close>: the sequence of its UTF-8 bytes, so an
  ASCII string is modelled character by character and \<open>TextEncoder.encode\<close> is the
  identity. An \<open>ArrayBuffer\<close> is a \<open>string\<close> as well (a list of bytes). Strings are
  compared with the lexicographic order of \<open>List_Lexorder\<close> over \<open>Char_ord\<close>, which is
  the order of JavaScript's \<open><\<close> on ASCII strings.
\<close>

text \<open>
  \<open>String.prototype.length\<close> and \<open>substring(n)\<close> count UTF-16 code units. On the UTF-8
  bytes of a text, a character of one, two or three bytes is one unit and a character of
  four bytes is two units (a surrogate pair); a continuation byte (\<open>10xxxxxx\<close>) begins no
  character. A \<open>substring(n)\<close> that starts inside a surrogate pair keeps the second half
  of the pair, written here with its three bytes \<open>ED Bx xx\<close> in the generalized encoding;
  on bytes that are not the encoding of a text it returns the empty string there.
\<close>

definition isContinuation :: "char \<Rightarrow> bool" where
  "isContinuation c \<longleftrightarrow> (0x80 :: nat) \<le> of_char c \<and> of_char c < (0xC0 :: nat)"

definition codeUnits :: "char \<Rightarrow> nat" where
  "codeUnits c = (if isContinuation c then 0 else if of_char c < (0xF0 :: nat) then 1 else 2)"

definition stringLength :: "string \<Rightarrow> nat" where
  "stringLength s = sum_list (map codeUnits s)"

fun substring :: "nat \<Rightarrow> string \<Rightarrow> string" where
  "substring 0 s = s"
| "substring (Suc n) [] = []"
| "substring (Suc n) (c # cs) =
     (if of_char c < (0x80 :: nat) then substring n cs
      else if of_char c < (0xE0 :: nat) then substring n (drop 1 cs)
      else if of_char c < (0xF0 :: nat) then substring n (drop 2 cs)
      else (case n of
              Suc m \<Rightarrow> substring m (drop 3 cs)
            | 0 \<Rightarrow>
                (case cs of
                   b2 # b3 # rest \<Rightarrow> CHR 0xED # char_of (0xB0 + (of_char b3 :: nat) mod 16) # rest
                 | _ \<Rightarrow> [])))"

text \<open>\<open>Array.prototype.join\<close> on an array of strings.\<close>

fun join :: "string \<Rightarrow> string list \<Rightarrow> string" where
  "join sep [] = []"
| "join sep [x] = x"
| "join sep (x # y # ys) = x @ sep @ join sep (y # ys)"

text \<open>\<open>Number.prototype.toString(16)\<close> on a natural number: lower-case, no padding.\<close>

fun toString16 :: "nat \<Rightarrow> string" where
  "toString16 n = (if n < 16 then [''0123456789abcdef'' ! n]
     else toString16 (n div 16) @ [''0123456789abcdef'' ! (n mod 16)])"

declare toString16.simps [simp del]

text \<open>\<open>String.prototype.toUpperCase\<close> and \<open>toLowerCase\<close> on ASCII letters.\<close>

definition toUpperCase :: "string \<Rightarrow> string" where
  "toUpperCase s = map (\<lambda>c. if CHR ''a'' \<le> c \<and> c \<le> CHR ''z''
      then char_of (of_char c - (32::nat)) else c) s"

definition toLowerCase :: "string \<Rightarrow> string" where
  "toLowerCase s = map (\<lambda>c. if CHR ''A'' \<le> c \<and> c \<le> CHR ''Z''
      then char_of (of_char c + (32::nat)) else c) s"

text \<open>
  \<open>buff2hex\<close>: every byte \<open>x\<close> becomes \<open>('0' + x.toString(16)).slice(-2)\<close>, and the
  pieces are joined with the empty separator.
\<close>

definition buff2hex :: "string \<Rightarrow> string" where
  "buff2hex buffer = join []
     (map (\<lambda>x. let s = CHR ''0'' # toString16 (of_char x) in drop (length s - 2) s) buffer)"

text \<open>
  \<open>encodeRFC3986\<close>: \<open>urlEncodedStr.replace(/[!'()*]/g, c => '%' +
  c.charCodeAt(0).toString(16).toUpperCase())\<close>.
\<close>

definition encodeRFC3986 :: "string \<Rightarrow> string" where
  "encodeRFC3986 urlEncodedStr = concat (map (\<lambda>c.
      if c = CHR ''!'' \<or> c = CHR 0x27 \<or> c = CHR ''('' \<or> c = CHR '')'' \<or> c = CHR ''*''
      then CHR ''%'' # toUpperCase (toString16 (of_char c)) else [c]) urlEncodedStr)"

text \<open>
  The built-in \<open>encodeURIComponent\<close>, on the UTF-8 bytes of its argument: letters, digits and
  \<open>- _ . ! ~ * ' ( )\<close> are kept, every other byte becomes \<open>%XX\<close> with two upper-case
  hexadecimal digits.
\<close>

definition uriUnreserved :: "char \<Rightarrow> bool" where
  "uriUnreserved c \<longleftrightarrow>
     (CHR ''A'' \<le> c \<and> c \<le> CHR ''Z'') \<or> (CHR ''a'' \<le> c \<and> c \<le> CHR ''z'') \<or>
     (CHR ''0'' \<le> c \<and> c \<le> CHR ''9'') \<or>
     c = CHR ''-'' \<or> c = CHR ''_'' \<or> c = CHR ''.'' \<or> c = CHR ''!'' \<or> c = CHR ''~'' \<or>
     c = CHR ''*'' \<or> c = CHR 0x27 \<or> c = CHR ''('' \<or> c = CHR '')''"

definition percentByte :: "char \<Rightarrow> string" where
  "percentByte c = CHR ''%'' # toUpperCase
     [''0123456789abcdef'' ! (of_char c div 16), ''0123456789abcdef'' ! (of_char c mod 16)]"

definition encodeURIComponent :: "string \<Rightarrow> string" where
  "encodeURIComponent s = concat (map (\<lambda>c. if uriUnreserved c then [c] else percentByte c) s)"

section \<open>Query canonicalization\<close>

text \<open>
  The filter of \<open>[...urlObject.searchParams]\<close> with the set \<open>seenKeys\<close>: a pair with an
  empty name is dropped, a pair whose name was seen is dropped, any other pair is kept and
  its name recorded.
\<close>

fun filterSeen :: "string set \<Rightarrow> (string \<times> string) list \<Rightarrow> (string \<times> string) list" where
  "filterSeen seenKeys [] = []"
| "filterSeen seenKeys ((k, v) # ps) =
     (if k = [] then filterSeen seenKeys ps
      else if k \<in> seenKeys then filterSeen seenKeys ps
      else (k, v) # filterSeen (insert k seenKeys) ps)"

text \<open>\<open>pair.map(p => encodeRFC3986(encodeURIComponent(p)))\<close>.\<close>

definition encodePair :: "string \<times> string \<Rightarrow> string \<times> string" where
  "encodePair pair = (encodeRFC3986 (encodeURIComponent (fst pair)),
                      encodeRFC3986 (encodeURIComponent (snd pair)))"

text \<open>
  The comparator handed to \<open>sort\<close>:
  \<open>k1 < k2 ? -1 : k1 > k2 ? 1 : v1 < v2 ? -1 : v1 > v2 ? 1 : 0\<close>.
\<close>

definition comparePairs :: "string \<times> string \<Rightarrow> string \<times> string \<Rightarrow> int" where
  "comparePairs a b =
     (if fst a < fst b then - 1 else if fst a > fst b then 1
      else if snd a < snd b then - 1 else if snd a > snd b then 1 else 0)"

text \<open>
  \<open>Array.prototype.sort(compareFn)\<close>, which is stable: an insertion sort that places an
  element before the first one it does not compare greater than.
\<close>

fun insertBy :: "('a \<Rightarrow> 'a \<Rightarrow> int) \<Rightarrow> 'a \<Rightarrow> 'a list \<Rightarrow> 'a list" where
  "insertBy cmp x [] = [x]"
| "insertBy cmp x (y # ys) = (if cmp x y \<le> 0 then x # y # ys else y # insertBy cmp x ys)"

definition sortBy :: "('a \<Rightarrow> 'a \<Rightarrow> int) \<Rightarrow> 'a list \<Rightarrow> 'a list" where
  "sortBy cmp xs = foldr (insertBy cmp) xs []"

definition encodedSearch :: "(string \<times> string) list \<Rightarrow> string" where
  "encodedSearch searchParams =
     join ''&'' (map (\<lambda>pair. join ''='' [fst pair, snd pair])
       (sortBy comparePairs (map encodePair (filterSeen {} searchParams))))"

text \<open>The order "first by key, then by value" on pairs of strings.\<close>

definition keyThenValue :: "string \<times> string \<Rightarrow> string \<times> string \<Rightarrow> bool" where
  "keyThenValue a b \<longleftrightarrow> fst a < fst b \<or> (fst a = fst b \<and> snd a \<le> snd b)"

section \<open>The runtime the signer runs on\<close>

text \<open>
  \<open>HttpMethods\<close>, with the text a method has in a template or a \<open>join\<close>.
\<close>

datatype HttpMethods = GET | POST | PUT | DELETE | HEAD

fun methodText :: "HttpMethods \<Rightarrow> string" where
  "methodText GET = ''GET''"
| "methodText POST = ''POST''"
| "methodText PUT = ''PUT''"
| "methodText DELETE = ''DELETE''"
| "methodText HEAD = ''HEAD''"

text \<open>
  A request body (\<open>BodyInit\<close>): a string, a byte buffer (a value with \<open>byteLength\<close>), or
  any other kind of body (a stream, a form, a blob). An absent body (\<open>undefined\<close> or
  \<open>null\<close>) is \<open>None\<close>.
\<close>

datatype BodyInit = StringBody string | BufferBody string | OtherBody

text \<open>The parts of a parsed \<open>URL\<close> object that the signer reads.\<close>

record URL =
  host :: string
  pathname :: string
  searchParams :: "(string \<times> string) list"

text \<open>
  What the platform provides and the repository does not define: \<open>subtle.digest\<close> with
  SHA-256 and \<open>subtle.sign\<close> with HMAC SHA-256 on bytes, the \<open>URL\<close> parser (\<open>None\<close>
  when \<open>new URL\<close> throws), \<open>decodeURIComponent\<close> (\<open>None\<close> when it throws), the check
  of a header name and value made by \<open>Headers\<close> (which throws on an invalid one),
  \<open>JSON.parse\<close> and \<open>JSON.stringify\<close>, and the streaming tokenizer, given by the texts of
  the chunks it hands to the text handler registered on \<open>key\<close> elements (\<open>None\<close> when
  writing to it throws).
\<close>

datatype json = JNull | JBool bool | JNumber int | JString string
  | JArray "json list" "(string \<times> json) list" | JObject "(string \<times> json) list"

record runtime =
  digestSHA256 :: "string \<Rightarrow> string"
  signHMAC :: "string \<Rightarrow> string \<Rightarrow> string"
  newURL :: "string \<Rightarrow> URL option"
  decodeURIComponent :: "string \<Rightarrow> string option"
  validHeader :: "string \<Rightarrow> string \<Rightarrow> bool"
  jsonParse :: "string \<Rightarrow> json option"
  jsonStringify :: "json \<Rightarrow> string"
  keyTexts :: "string \<Rightarrow> string list option"

datatype error =
    InvalidURL
  | InvalidHeader
  | InvalidBodyType
  | FetchError string
  | HttpException nat
  | SyntaxError
  | RewriterError
  | TypeError

subsection \<open>The \<open>Headers\<close> class\<close>

text \<open>
  A \<open>Headers\<close> object is the list of its entries in insertion order, names in lower case.
  The constructor checks every name and value; \<open>has\<close>, \<open>get\<close>, \<open>set\<close> and \<open>delete\<close>
  look a name up in lower case; \<open>get\<close> joins the values of a name with a comma and a
  space (and puts the value of \<open>content-encoding\<close> in lower case); \<open>set\<close> checks the name and the value, then overwrites the first entry of the name
  and drops the others, or appends one; \<open>keys\<close> yields each name once, sorted.
\<close>

type_synonym Headers = "(string \<times> string) list"

definition newHeaders :: "runtime \<Rightarrow> (string \<times> string) list \<Rightarrow> Headers option" where
  "newHeaders rt init =
     (if \<forall>p \<in> set init. validHeader rt (fst p) (snd p)
      then Some (map (\<lambda>p. (toLowerCase (fst p), snd p)) init) else None)"

definition headersDelete :: "string \<Rightarrow> Headers \<Rightarrow> Headers" where
  "headersDelete name hs = filter (\<lambda>p. fst p \<noteq> toLowerCase name) hs"

definition headersHas :: "string \<Rightarrow> Headers \<Rightarrow> bool" where
  "headersHas name hs \<longleftrightarrow> toLowerCase name \<in> fst ` set hs"

definition headersGet :: "string \<Rightarrow> Headers \<Rightarrow> string option" where
  "headersGet name hs =
     (case filter (\<lambda>p. fst p = toLowerCase name) hs of
        [] \<Rightarrow> None
      | vs \<Rightarrow> Some (if toLowerCase name = ''content-encoding''
                    then toLowerCase (join '', '' (map snd vs)) else join '', '' (map snd vs)))"

fun replaceFirst :: "string \<Rightarrow> string \<Rightarrow> Headers \<Rightarrow> Headers" where
  "replaceFirst name v [] = [(name, v)]"
| "replaceFirst name v (p # ps) =
     (if fst p = name then (name, v) # filter (\<lambda>q. fst q \<noteq> name) ps
      else p # replaceFirst name v ps)"

definition headersSet :: "runtime \<Rightarrow> string \<Rightarrow> string \<Rightarrow> Headers \<Rightarrow> Headers option" where
  "headersSet rt name v hs =
     (if validHeader rt name v then Some (replaceFirst (toLowerCase name) v hs) else None)"

definition headersKeys :: "Headers \<Rightarrow> string list" where
  "headersKeys hs = sort (remdups (map fst hs))"

subsection \<open>Regular-expression replacements of the signer\<close>

text \<open>\<open>.replace(/[:-]|\.\d{3}/g, '')\<close> on the ISO text of the clock.\<close>

definition isDigit :: "char \<Rightarrow> bool" where
  "isDigit c \<longleftrightarrow> CHR ''0'' \<le> c \<and> c \<le> CHR ''9''"

fun stripPunctuation :: "string \<Rightarrow> string" where
  "stripPunctuation [] = []"
| "stripPunctuation (c # cs) =
     (if c = CHR '':'' \<or> c = CHR ''-'' then stripPunctuation cs
      else if c = CHR ''.'' \<and> 3 \<le> length cs \<and> (\<forall>d \<in> set (take 3 cs). isDigit d)
        then stripPunctuation (drop 3 cs)
      else c # stripPunctuation cs)"

text \<open>
  \<open>.replace(/\s+/g, ' ')\<close> on a header value. A valid header value holds characters up to
  U+00FF only, and among these the class \<open>\s\<close> is tab, line feed, vertical tab, form feed,
  carriage return, space and the no-break space U+00A0 (the bytes C2 A0).
\<close>

fun collapseSpace :: "bool \<Rightarrow> string \<Rightarrow> string" where
  "collapseSpace inRun [] = []"
| "collapseSpace inRun [c] =
     (if of_char c \<in> {9, 10, 11, 12, 13, 32 :: nat}
      then (if inRun then [] else '' '') else [c])"
| "collapseSpace inRun (c # d # cs) =
     (if of_char c \<in> {9, 10, 11, 12, 13, 32 :: nat}
      then (if inRun then [] else '' '') @ collapseSpace True (d # cs)
      else if of_char c = (0xC2 :: nat) \<and> of_char d = (0xA0 :: nat)
      then (if inRun then [] else '' '') @ collapseSpace True cs
      else c # collapseSpace False (d # cs))"

text \<open>\<open>.replace(/\+/g, ' ')\<close> and \<open>.replace(/%2F/g, '/')\<close> on the path.\<close>

definition plusToSpace :: "string \<Rightarrow> string" where
  "plusToSpace s = map (\<lambda>c. if c = CHR ''+'' then CHR '' '' else c) s"

fun restoreSlashes :: "string \<Rightarrow> string" where
  "restoreSlashes (a # b # c # cs) =
     (if a = CHR ''%'' \<and> b = CHR ''2'' \<and> c = CHR ''F'' then CHR ''/'' # restoreSlashes cs
      else a # restoreSlashes (b # c # cs))"
| "restoreSlashes cs = cs"

section \<open>The certifier (request signer)\<close>

text \<open>
  \<open>createCertifier\<close> closes over the credentials, the region and a cache of derived keys,
  a \<open>Map\<close> from string to \<open>ArrayBuffer\<close> that starts empty.
\<close>

record Certifier =
  accessKey :: string
  secretKey :: string
  region :: string
  cache :: "string \<rightharpoonup> string"

definition createCertifier :: "string \<Rightarrow> string \<Rightarrow> string \<Rightarrow> Certifier" where
  "createCertifier ak sk r = \<lparr>accessKey = ak, secretKey = sk, region = r, cache = Map.empty\<rparr>"

definition UNSIGNABLE_HEADERS :: "string list" where
  "UNSIGNABLE_HEADERS = [''authorization'', ''content-type'', ''content-length'',
     ''user-agent'', ''presigned-expires'', ''expect'', ''x-amzn-trace-id'', ''range'',
     ''connection'']"

definition signableHeaders :: "Headers \<Rightarrow> string list" where
  "signableHeaders headers =
     sort (filter (\<lambda>header. header \<notin> set UNSIGNABLE_HEADERS) (''host'' # headersKeys headers))"

definition canonicalHeaders :: "URL \<Rightarrow> Headers \<Rightarrow> string" where
  "canonicalHeaders urlObject headers =
     join [CHR 0x0A] (map (\<lambda>header. header @ '':'' @
         (if header = ''host'' then host urlObject
          else collapseSpace False
                 (case headersGet header headers of None \<Rightarrow> [] | Some v \<Rightarrow> v)))
       (signableHeaders headers))"

definition encodedPath :: "runtime \<Rightarrow> URL \<Rightarrow> string" where
  "encodedPath rt urlObject =
     encodeRFC3986 (restoreSlashes (encodeURIComponent
       (case decodeURIComponent rt (plusToSpace (pathname urlObject)) of
          Some decoded \<Rightarrow> decoded
        | None \<Rightarrow> pathname urlObject)))"

definition cacheKey :: "Certifier \<Rightarrow> string \<Rightarrow> string" where
  "cacheKey c datestr = join '','' [secretKey c, datestr, region c, ''s3'']"

text \<open>
  Lines 397 to 408: the cached key is used when the cache has one; otherwise four calls of
  \<open>createHMAC\<close> derive it and the cache stores it. The third component lists the calls of
  \<open>createHMAC\<close> made, as pairs of key and message, in order.
\<close>

definition kCredentials ::
  "runtime \<Rightarrow> Certifier \<Rightarrow> string \<Rightarrow> string \<times> Certifier \<times> (string \<times> string) list" where
  "kCredentials rt c datestr =
     (case cache c (cacheKey c datestr) of
        Some k \<Rightarrow> (k, c, [])
      | None \<Rightarrow>
          (let kDate = signHMAC rt (''AWS4'' @ secretKey c) datestr;
               kRegion = signHMAC rt kDate (region c);
               kService = signHMAC rt kRegion ''s3'';
               k = signHMAC rt kService ''aws4_request''
           in (k, c\<lparr>cache := (cache c)(cacheKey c datestr \<mapsto> k)\<rparr>,
               [(''AWS4'' @ secretKey c, datestr), (kDate, region c), (kRegion, ''s3''),
                (kService, ''aws4_request'')])))"

text \<open>
  Lines 410 to 420: the content hash that enters the canonical request, read from the
  headers; when the header is absent, a body that is neither a string nor a buffer is
  refused and the hash of the body (of the empty string for no body) is taken.
\<close>

definition hashHeader :: "runtime \<Rightarrow> Headers \<Rightarrow> BodyInit option \<Rightarrow> error + string" where
  "hashHeader rt headers body =
     (case headersGet ''X-Amz-Content-Sha256'' headers of
        Some h \<Rightarrow> Inr h
      | None \<Rightarrow>
          (case body of
             Some OtherBody \<Rightarrow> Inl InvalidBodyType
           | Some (StringBody s) \<Rightarrow> Inr (buff2hex (digestSHA256 rt s))
           | Some (BufferBody b) \<Rightarrow> Inr (buff2hex (digestSHA256 rt b))
           | None \<Rightarrow> Inr (buff2hex (digestSHA256 rt []))))"

definition canonicalRequest ::
  "runtime \<Rightarrow> HttpMethods \<Rightarrow> URL \<Rightarrow> Headers \<Rightarrow> string \<Rightarrow> string" where
  "canonicalRequest rt method urlObject headers contentHash =
     join [CHR 0x0A] [methodText method, encodedPath rt urlObject,
       encodedSearch (searchParams urlObject), canonicalHeaders urlObject headers @ [CHR 0x0A],
       join '';'' (signableHeaders headers), contentHash]"

definition stringToSign :: "runtime \<Rightarrow> string \<Rightarrow> string \<Rightarrow> string \<Rightarrow> string" where
  "stringToSign rt datetime credentialString canonical =
     join [CHR 0x0A] [''AWS4-HMAC-SHA256'', datetime, credentialString,
       buff2hex (digestSHA256 rt canonical)]"

definition authorization :: "Certifier \<Rightarrow> string \<Rightarrow> string \<Rightarrow> string \<Rightarrow> string" where
  "authorization c credentialString signedHeaders signature =
     join '', '' [''AWS4-HMAC-SHA256 Credential='' @ accessKey c @ ''/'' @ credentialString,
       ''SignedHeaders='' @ signedHeaders, ''Signature='' @ signature]"

text \<open>The \<open>RequestInit\<close> the certifier returns: \<open>{ method, headers, body }\<close>.\<close>

record RequestInit =
  initMethod :: HttpMethods
  initHeaders :: Headers
  initBody :: "BodyInit option"

text \<open>
  Lines 337 to 346: the header set the signature is computed over. \<open>new Headers(baseHeaders
  || {})\<close>, then \<open>Host\<close> is deleted, the content hash defaults to the literal
  \<open>UNSIGNED-PAYLOAD\<close> when the caller gave none, and \<open>X-Amz-Date\<close> is set. \<open>None\<close> when
  \<open>Headers\<close> throws.
\<close>

definition prepareHeaders ::
  "runtime \<Rightarrow> string \<Rightarrow> (string \<times> string) list option \<Rightarrow> Headers option" where
  "prepareHeaders rt datetime baseHeaders =
     (case newHeaders rt (case baseHeaders of None \<Rightarrow> [] | Some init \<Rightarrow> init) of
        None \<Rightarrow> None
      | Some headers0 \<Rightarrow>
          (let headers1 = headersDelete ''Host'' headers0 in
           (case (if \<not> headersHas ''X-Amz-Content-Sha256'' headers1
                  then headersSet rt ''X-Amz-Content-Sha256'' ''UNSIGNED-PAYLOAD'' headers1
                  else Some headers1) of
              None \<Rightarrow> None
            | Some headers2 \<Rightarrow> headersSet rt ''X-Amz-Date'' datetime headers2)))"

text \<open>
  The function \<open>createCertifier\<close> returns, with the clock reading \<open>now\<close> (the text of
  \<open>new Date().toISOString()\<close>) as an argument. It returns the signed request or the error
  thrown, the certifier with its cache as the call leaves it, and the calls of
  \<open>createHMAC\<close> it made: the derivations of \<open>kCredentials\<close>, then the one that signs.
\<close>

definition certify ::
  "runtime \<Rightarrow> Certifier \<Rightarrow> string \<Rightarrow> HttpMethods \<Rightarrow> string \<Rightarrow> (string \<times> string) list option \<Rightarrow>
   BodyInit option \<Rightarrow> (error + RequestInit) \<times> Certifier \<times> (string \<times> string) list" where
  "certify rt c now method url baseHeaders body =
     (case newURL rt url of
        None \<Rightarrow> (Inl InvalidURL, c, [])
      | Some urlObject \<Rightarrow>
     (let datetime = stripPunctuation now in
     (case prepareHeaders rt datetime baseHeaders of
        None \<Rightarrow> (Inl InvalidHeader, c, [])
      | Some headers3 \<Rightarrow>
     (let signedHeaders = join '';'' (signableHeaders headers3);
          datestr = take 8 datetime;
          credentialString = join ''/'' [datestr, region c, ''s3'', ''aws4_request''];
          (k, c', derivations) = kCredentials rt c datestr
      in
     (case hashHeader rt headers3 body of
        Inl e \<Rightarrow> (Inl e, c', derivations)
      | Inr contentHash \<Rightarrow>
     (let toSign = stringToSign rt datetime credentialString
                     (canonicalRequest rt method urlObject headers3 contentHash);
          signature = buff2hex (signHMAC rt k toSign);
          calls = derivations @ [(k, toSign)]
      in
     (case headersSet rt ''Authorization''
             (authorization c credentialString signedHeaders signature) headers3 of
        None \<Rightarrow> (Inl InvalidHeader, c', calls)
      | Some headers4 \<Rightarrow>
          (Inr \<lparr>initMethod = method, initHeaders = headers4, initBody = body\<rparr>, c', calls))))))))"

section \<open>The transport executor\<close>

text \<open>\<open>Number.prototype.toString()\<close> on a natural number and on an integer.\<close>

fun decimal :: "nat \<Rightarrow> string" where
  "decimal n = (if n < 10 then [''0123456789'' ! n]
     else decimal (n div 10) @ [''0123456789'' ! (n mod 10)])"

declare decimal.simps [simp del]

definition decimalInt :: "int \<Rightarrow> string" where
  "decimalInt i = (if i < 0 then CHR ''-'' # decimal (nat (- i)) else decimal (nat i))"

text \<open>
  \<open>class HttpException extends Error\<close> carries the status code alone; its message is
  \<open>`HTTP Error ${code}`\<close>. The messages of the other errors are not the repository's.
\<close>

fun errorMessage :: "error \<Rightarrow> string option" where
  "errorMessage (HttpException code) = Some (''HTTP Error '' @ decimal code)"
| "errorMessage e = None"

text \<open>
  A \<open>Response\<close>: its status and the text of its body. A call of \<open>fetch\<close> is given by
  what the transport does with the address and the signed request: it rejects with a reason
  (\<open>Inl\<close>) or resolves with a response.
\<close>

record Response =
  status :: nat
  bodyText :: string

type_synonym Fetch = "string \<Rightarrow> RequestInit \<Rightarrow> string + Response"

record S3ODM =
  hostname :: string
  bucket :: string
  certifier :: Certifier

text \<open>The constructor; \<open>region\<close> defaults to \<open>'auto'\<close>.\<close>

definition newS3ODM :: "string \<Rightarrow> string \<Rightarrow> string \<Rightarrow> string \<Rightarrow> string option \<Rightarrow> S3ODM" where
  "newS3ODM ak sk hn b r = \<lparr>hostname = hn, bucket = b,
     certifier = createCertifier ak sk (case r of None \<Rightarrow> ''auto'' | Some given \<Rightarrow> given)\<rparr>"

text \<open>
  \<open>execute\<close>, lines 48 to 69. The call reads the clock once (\<open>now\<close>) and calls \<open>fetch\<close>
  once; the instance is returned with the certifier's cache as the call leaves it.
\<close>

definition execute ::
  "runtime \<Rightarrow> S3ODM \<Rightarrow> string \<Rightarrow> Fetch \<Rightarrow> nat \<Rightarrow> HttpMethods \<Rightarrow> string \<Rightarrow> string option \<Rightarrow>
   (error + Response) \<times> S3ODM" where
  "execute rt odm now fetch okCode method vTable body =
     (let url = ''https://'' @ hostname odm @ ''/'' @ bucket odm @ ''/'' @ vTable;
          (request, c', calls) =
             certify rt (certifier odm) now method url None (map_option StringBody body);
          odm' = odm\<lparr>certifier := c'\<rparr>
      in (case request of
            Inl e \<Rightarrow> (Inl e, odm')
          | Inr signed \<Rightarrow>
              (case fetch url signed of
                 Inl reason \<Rightarrow> (Inl (FetchError reason), odm')
               | Inr reply \<Rightarrow>
                   if status reply = okCode then (Inr reply, odm')
                   else (Inl (HttpException (status reply)), odm'))))"

section \<open>The facade\<close>

text \<open>
  Documents are JSON values; numbers are modelled by integers (only whether a number is
  zero matters here). An array carries its items and its named properties, which are empty
  after parsing. \<open>isTruthy\<close> is JavaScript's conversion to a boolean.
\<close>

fun isTruthy :: "json \<Rightarrow> bool" where
  "isTruthy JNull = False"
| "isTruthy (JBool b) = b"
| "isTruthy (JNumber n) = (n \<noteq> 0)"
| "isTruthy (JString s) = (s \<noteq> [])"
| "isTruthy (JArray items props) = True"
| "isTruthy (JObject props) = True"

text \<open>\<open>document?._id\<close>: \<open>None\<close> is \<open>undefined\<close>.\<close>

fun getId :: "json \<Rightarrow> json option" where
  "getId (JObject props) = map_of props ''_id''"
| "getId (JArray items props) = map_of props ''_id''"
| "getId document = None"

text \<open>
  \<open>document._id = _id\<close>: an object or an array takes the property (in place when it has
  one, as its last property otherwise); on a primitive value the assignment throws a
  \<open>TypeError\<close>, the file being a module and so in strict mode.
\<close>

fun assign :: "string \<Rightarrow> json \<Rightarrow> (string \<times> json) list \<Rightarrow> (string \<times> json) list" where
  "assign name v [] = [(name, v)]"
| "assign name v (p # ps) =
     (if fst p = name then (name, v) # ps else p # assign name v ps)"

fun setId :: "string \<Rightarrow> json \<Rightarrow> error + json" where
  "setId i (JObject props) = Inr (JObject (assign ''_id'' (JString i) props))"
| "setId i (JArray items props) = Inr (JArray items (assign ''_id'' (JString i) props))"
| "setId i document = Inl TypeError"

text \<open>The text of a value inside a template literal; \<open>None\<close> is \<open>undefined\<close>.\<close>

fun templateText :: "json \<Rightarrow> string" where
  "templateText JNull = ''null''"
| "templateText (JBool b) = (if b then ''true'' else ''false'')"
| "templateText (JNumber n) = decimalInt n"
| "templateText (JString s) = s"
| "templateText (JArray items props) =
     join '','' (map (\<lambda>item. if item = JNull then [] else templateText item) items)"
| "templateText (JObject props) = ''[object Object]''"

definition templateOf :: "json option \<Rightarrow> string" where
  "templateOf v = (case v of None \<Rightarrow> ''undefined'' | Some j \<Rightarrow> templateText j)"

text \<open>\<open>findById\<close>, lines 74 to 93; the result \<open>JNull\<close> is \<open>null\<close>.\<close>

definition findById ::
  "runtime \<Rightarrow> S3ODM \<Rightarrow> string \<Rightarrow> Fetch \<Rightarrow> string \<Rightarrow> string \<Rightarrow> (error + json) \<times> S3ODM" where
  "findById rt odm now fetch vTable i =
     (let (result, odm') = execute rt odm now fetch 200 GET (vTable @ ''/'' @ i @ ''.json'') None;
          attempt =
            (case result of
               Inl e \<Rightarrow> Inl e
             | Inr reply \<Rightarrow>
                 (case jsonParse rt (bodyText reply) of
                    None \<Rightarrow> Inl SyntaxError
                  | Some document \<Rightarrow>
                      if isTruthy document \<and>
                         \<not> (case getId document of None \<Rightarrow> False | Some v \<Rightarrow> isTruthy v)
                      then setId i document
                      else Inr document))
      in (case attempt of
            Inl e \<Rightarrow> (if e = HttpException 404 then Inr JNull else Inl e)
          | Inr document \<Rightarrow> Inr document, odm'))"

text \<open>\<open>exists\<close>, lines 98 to 102: \<open>.then(r => !!r).catch(() => false)\<close>.\<close>

definition exists :: "runtime \<Rightarrow> S3ODM \<Rightarrow> string \<Rightarrow> Fetch \<Rightarrow> string \<Rightarrow> string \<Rightarrow> bool \<times> S3ODM" where
  "exists rt odm now fetch vTable i =
     (let (result, odm') = execute rt odm now fetch 200 HEAD (vTable @ ''/'' @ i @ ''.json'') None
      in (case result of Inl e \<Rightarrow> False | Inr r \<Rightarrow> True, odm'))"

text \<open>
  \<open>insert\<close>, lines 107 to 116 (named \<open>insertDoc\<close> here, \<open>insert\<close> being the insertion
  into a set); the document is an object, given by its properties.
\<close>

definition insertDoc ::
  "runtime \<Rightarrow> S3ODM \<Rightarrow> string \<Rightarrow> Fetch \<Rightarrow> string \<Rightarrow> (string \<times> json) list \<Rightarrow>
   (error + (string \<times> json) list) \<times> S3ODM" where
  "insertDoc rt odm now fetch vTable document =
     (let (result, odm') = execute rt odm now fetch 200 PUT
            (vTable @ ''/'' @ templateOf (map_of document ''_id'') @ ''.json'')
            (Some (jsonStringify rt (JObject document)))
      in (case result of Inl e \<Rightarrow> Inl e | Inr r \<Rightarrow> Inr document, odm'))"

text \<open>\<open>deleteById\<close>, lines 121 to 123, and \<open>deleteByIds\<close>, lines 128 to 134.\<close>

definition deleteById ::
  "runtime \<Rightarrow> S3ODM \<Rightarrow> string \<Rightarrow> Fetch \<Rightarrow> string \<Rightarrow> string \<Rightarrow> (error + Response) \<times> S3ODM" where
  "deleteById rt odm now fetch vTable i =
     execute rt odm now fetch 204 DELETE (vTable @ ''/'' @ i @ ''.json'') None"

definition deleteManifest :: "string \<Rightarrow> string list \<Rightarrow> string" where
  "deleteManifest vTable ids =
     ''<Delete>'' @ join [] (map (\<lambda>i. ''<Object><Key>'' @ vTable @ ''/'' @ i @ ''</Key></Object>'') ids)
       @ ''</Delete>''"

definition deleteByIds ::
  "runtime \<Rightarrow> S3ODM \<Rightarrow> string \<Rightarrow> Fetch \<Rightarrow> string \<Rightarrow> string list \<Rightarrow> (error + Response) \<times> S3ODM" where
  "deleteByIds rt odm now fetch vTable ids =
     execute rt odm now fetch 200 POST ''?delete'' (Some (deleteManifest vTable ids))"

section \<open>Listing\<close>

text \<open>
  \<open>URLSearchParams\<close>: the list of its pairs. \<open>set\<close> overwrites the first pair of the name
  and drops the others, or appends one; \<open>toString\<close> serializes the pairs as a form.
\<close>

definition paramsSet :: "string \<Rightarrow> string \<Rightarrow> (string \<times> string) list \<Rightarrow> (string \<times> string) list" where
  "paramsSet name v params = replaceFirst name v params"

definition formEncode :: "string \<Rightarrow> string" where
  "formEncode s = concat (map (\<lambda>c.
      if (CHR ''A'' \<le> c \<and> c \<le> CHR ''Z'') \<or> (CHR ''a'' \<le> c \<and> c \<le> CHR ''z'') \<or>
         (CHR ''0'' \<le> c \<and> c \<le> CHR ''9'') \<or>
         c = CHR ''*'' \<or> c = CHR ''-'' \<or> c = CHR ''.'' \<or> c = CHR ''_'' then [c]
      else if c = CHR '' '' then ''+'' else percentByte c) s)"

definition paramsToString :: "(string \<times> string) list \<Rightarrow> string" where
  "paramsToString params =
     join ''&'' (map (\<lambda>p. formEncode (fst p) @ ''='' @ formEncode (snd p)) params)"

definition chunkSize :: nat where
  "chunkSize = 1000"


text \<open>\<open>chunk.text.substring(vTable.length).replace(/\.json$/, '')\<close>\<close>

definition stripJson :: "string \<Rightarrow> string" where
  "stripJson s = (if 5 \<le> length s \<and> drop (length s - 5) s = ''.json''
     then take (length s - 5) s else s)"

definition bareId :: "string \<Rightarrow> string \<Rightarrow> string" where
  "bareId vTable chunkText = stripJson (substring (stringLength vTable) chunkText)"

text \<open>
  The text handler registered on \<open>key\<close>, as a step on the variables it updates:
  \<open>matches\<close>, \<open>_ids\<close> and \<open>marker\<close> (\<open>None\<close> is \<open>false\<close>).
\<close>

definition textHandler ::
  "string \<Rightarrow> nat \<times> string list \<times> string option \<Rightarrow> string \<Rightarrow> nat \<times> string list \<times> string option" where
  "textHandler vTable st chunkText =
     (case st of (matches, ids, marker) \<Rightarrow>
        if chunkText \<noteq> [] then
          (if chunkText \<noteq> vTable
           then (matches + 1, ids @ [bareId vTable chunkText], Some chunkText)
           else (matches + 1, ids, marker))
        else (matches, ids, marker))"

text \<open>\<open>if (marker) { params.set('start-after', marker); }\<close>\<close>

definition withMarker :: "string option \<Rightarrow> (string \<times> string) list \<Rightarrow> (string \<times> string) list" where
  "withMarker marker params =
     (case marker of
        Some m \<Rightarrow> if m \<noteq> [] then paramsSet ''start-after'' m params else params
      | None \<Rightarrow> params)"

text \<open>
  The \<open>do ... while\<close> loop of \<open>listIds\<close>. The transport is given by a script: one clock
  reading and one behaviour of \<open>fetch\<close> for each request the loop makes, in order. The
  result is \<open>None\<close> when the script ends before the loop does. The last component lists
  the request targets (\<open>'?' + params.toString()\<close>) handed to \<open>execute\<close>, in order.
\<close>

fun listIdsLoop ::
  "runtime \<Rightarrow> string \<Rightarrow> S3ODM \<Rightarrow> (string \<times> string) list \<Rightarrow> string list \<Rightarrow> string option \<Rightarrow>
   (string \<times> Fetch) list \<Rightarrow> (error + string list) option \<times> S3ODM \<times> string list" where
  "listIdsLoop rt vTable odm params ids marker [] = (None, odm, [])"
| "listIdsLoop rt vTable odm params ids marker ((now, fetch) # later) =
     (let params' = withMarker marker params;
          target = ''?'' @ paramsToString params';
          (result, odm') = execute rt odm now fetch 200 GET target None
      in (case result of
            Inl e \<Rightarrow> (Some (Inl e), odm', [target])
          | Inr reply \<Rightarrow>
              (case keyTexts rt (bodyText reply) of
                 None \<Rightarrow> (Some (Inl RewriterError), odm', [target])
               | Some chunks \<Rightarrow>
                   (let (matches, ids', marker') = foldl (textHandler vTable) (0, ids, marker) chunks
                    in if chunkSize = matches
                       then (let (r, odm'', sent) = listIdsLoop rt vTable odm' params' ids' marker' later
                             in (r, odm'', target # sent))
                       else (Some (Inr ids'), odm', [target])))))"


section \<open>Notions used to state the properties\<close>

text \<open>
  A request of the facade \<open>resolves\<close> with a reply when the certifier signs it and
  \<open>fetch\<close>, called with the address and the signed request, resolves with that reply.
\<close>

definition resolves ::
  "runtime \<Rightarrow> S3ODM \<Rightarrow> string \<Rightarrow> Fetch \<Rightarrow> HttpMethods \<Rightarrow> string \<Rightarrow> string option \<Rightarrow> Response \<Rightarrow> bool"
  where
  "resolves rt odm now fetch method vTable body reply =
     (case fst (certify rt (certifier odm) now method
                  (''https://'' @ hostname odm @ ''/'' @ bucket odm @ ''/'' @ vTable) None
                  (map_option StringBody body)) of
        Inl e \<Rightarrow> False
      | Inr signed \<Rightarrow>
          fetch (''https://'' @ hostname odm @ ''/'' @ bucket odm @ ''/'' @ vTable) signed = Inr reply)"

text \<open>
  The characters a key or a value keeps in the canonical query (letters, digits and
  \<open>- _ . ~\<close>), and the three characters \<open>%XX\<close> that stand for any other byte, with
  upper-case hexadecimal digits.
\<close>

definition keptInQuery :: "char \<Rightarrow> bool" where
  "keptInQuery c \<longleftrightarrow>
     (CHR ''A'' \<le> c \<and> c \<le> CHR ''Z'') \<or> (CHR ''a'' \<le> c \<and> c \<le> CHR ''z'') \<or>
     (CHR ''0'' \<le> c \<and> c \<le> CHR ''9'') \<or>
     c = CHR ''-'' \<or> c = CHR ''_'' \<or> c = CHR ''.'' \<or> c = CHR ''~''"

definition percentHex :: "char \<Rightarrow> string" where
  "percentHex c = [CHR ''%'', ''0123456789ABCDEF'' ! (of_char c div 16),
                   ''0123456789ABCDEF'' ! (of_char c mod 16)]"

text \<open>
  A sample runtime, instance and transports for the concrete instances below. The sample
  URL parser reads addresses of the form \<open>https://host/path\<close> and leaves the query
  unparsed; the sample digest and HMAC are short stand-ins.
\<close>

definition sampleURL :: "string \<Rightarrow> URL option" where
  "sampleURL u = (if take 8 u = ''https://''
     then Some \<lparr>host = takeWhile (\<lambda>c. c \<noteq> CHR ''/'') (drop 8 u),
                pathname = takeWhile (\<lambda>c. c \<noteq> CHR ''?'') (dropWhile (\<lambda>c. c \<noteq> CHR ''/'') (drop 8 u)),
                searchParams = []\<rparr>
     else None)"

definition sampleParse :: "string \<Rightarrow> json option" where
  "sampleParse s = (if s = ''jane'' then Some (JObject [(''name'', JString ''Jane'')]) else None)"

definition sampleRuntime :: runtime where
  "sampleRuntime = \<lparr>digestSHA256 = (\<lambda>b. take 2 b), signHMAC = (\<lambda>k m. take 1 k @ take 1 m),
     newURL = sampleURL, decodeURIComponent = Some, validHeader = (\<lambda>n v. True),
     jsonParse = sampleParse, jsonStringify = (\<lambda>j. ''{}''), keyTexts = (\<lambda>x. Some [x])\<rparr>"

definition sampleODM :: S3ODM where
  "sampleODM = newS3ODM ''AK'' ''SK'' ''s3.test'' ''bucket'' None"

definition sampleNow :: string where
  "sampleNow = ''2026-11-03T10:20:30.123Z''"

text \<open>A transport that answers every request with the given status and body text.\<close>

definition answering :: "nat \<Rightarrow> string \<Rightarrow> Fetch" where
  "answering code txt = (\<lambda>url request. Inr \<lparr>status = code, bodyText = txt\<rparr>)"

text \<open>
  The result of \<open>certify\<close> once the address is parsed, the headers are prepared and the
  key \<open>k\<close> is at hand: the part of the function after line 408.
\<close>

definition signedWith ::
  "runtime \<Rightarrow> Certifier \<Rightarrow> string \<Rightarrow> string \<Rightarrow> HttpMethods \<Rightarrow> URL \<Rightarrow> Headers \<Rightarrow> BodyInit option \<Rightarrow>
   error + RequestInit" where
  "signedWith rt c k datetime method urlObject headers3 body =
     (case hashHeader rt headers3 body of
        Inl e \<Rightarrow> Inl e
      | Inr contentHash \<Rightarrow>
          (case headersSet rt ''Authorization''
                  (authorization c (join ''/'' [take 8 datetime, region c, ''s3'', ''aws4_request''])
                     (join '';'' (signableHeaders headers3))
                     (buff2hex (signHMAC rt k
                        (stringToSign rt datetime
                           (join ''/'' [take 8 datetime, region c, ''s3'', ''aws4_request''])
                           (canonicalRequest rt method urlObject headers3 contentHash)))))
                  headers3 of
             None \<Rightarrow> Inl InvalidHeader
           | Some headers4 \<Rightarrow> Inr \<lparr>initMethod = method, initHeaders = headers4, initBody = body\<rparr>))"



text \<open>\<open>_datestr\<close>: the first eight characters of the clock text without punctuation.\<close>

definition datestrOf :: "string \<Rightarrow> string" where
  "datestrOf now = take 8 (stripPunctuation now)"

text \<open>
  The signing key as the specification writes it:
  \<open>HMAC(HMAC(HMAC(HMAC("AWS4"+secretKey, dateStamp), region), "s3"), "aws4_request")\<close>.
\<close>

definition spec_kSigning :: "runtime \<Rightarrow> string \<Rightarrow> string \<Rightarrow> string \<Rightarrow> string" where
  "spec_kSigning rt sk r dateStamp =
     signHMAC rt (signHMAC rt (signHMAC rt (signHMAC rt (''AWS4'' @ sk) dateStamp) r) ''s3'')
       ''aws4_request''"

text \<open>A function of key and message without any collision (used for the sample HMAC).\<close>

definition collisionFree :: "(string \<Rightarrow> string \<Rightarrow> string) \<Rightarrow> bool" where
  "collisionFree h \<longleftrightarrow> (\<forall>k m k' m'. h k m = h k' m' \<longrightarrow> k = k' \<and> m = m')"

text \<open>The four HMAC computations of that chain, as pairs of key and message.\<close>

definition chainCalls :: "runtime \<Rightarrow> string \<Rightarrow> string \<Rightarrow> string \<Rightarrow> (string \<times> string) list" where
  "chainCalls rt sk r dateStamp =
     [(''AWS4'' @ sk, dateStamp),
      (signHMAC rt (''AWS4'' @ sk) dateStamp, r),
      (signHMAC rt (signHMAC rt (''AWS4'' @ sk) dateStamp) r, ''s3''),
      (signHMAC rt (signHMAC rt (signHMAC rt (''AWS4'' @ sk) dateStamp) r) ''s3'', ''aws4_request'')]"

text \<open>HMAC does not collide on a set of inputs: it maps different inputs of the set to
  different values.\<close>

definition noCollision :: "runtime \<Rightarrow> (string \<times> string) set \<Rightarrow> bool" where
  "noCollision rt inputs \<longleftrightarrow> inj_on (\<lambda>p. signHMAC rt (fst p) (snd p)) inputs"

text \<open>The cache holds, under the key of a date stamp, nothing but the chain for that stamp.\<close>

definition cacheSound :: "runtime \<Rightarrow> Certifier \<Rightarrow> bool" where
  "cacheSound rt c \<longleftrightarrow>
     (\<forall>d k. cache c (cacheKey c d) = Some k \<longrightarrow> k = spec_kSigning rt (secretKey c) (region c) d)"

text \<open>
  A history of signing calls on one certifier: each call with its clock reading, method,
  address, headers and body; \<open>afterCalls\<close> is the certifier the history leaves.
\<close>

type_synonym signingCall =
  "string \<times> HttpMethods \<times> string \<times> (string \<times> string) list option \<times> BodyInit option"

fun afterCalls :: "runtime \<Rightarrow> Certifier \<Rightarrow> signingCall list \<Rightarrow> Certifier" where
  "afterCalls rt c [] = c"
| "afterCalls rt c ((now, method, url, baseHeaders, body) # rest) =
     afterCalls rt (fst (snd (certify rt c now method url baseHeaders body))) rest"

text \<open>A sample HMAC without collisions, and a sample runtime and signing calls with it.\<close>

definition prefixHMAC :: "string \<Rightarrow> string \<Rightarrow> string" where
  "prefixHMAC k m = replicate (length k) CHR ''1'' @ CHR ''0'' # k @ m"

definition hmacRuntime :: runtime where
  "hmacRuntime = sampleRuntime\<lparr>signHMAC := prefixHMAC\<rparr>"

definition sampleURLText :: string where
  "sampleURLText = ''https://s3.test/bucket/users/42.json''"

definition sampleFirst :: "(error + RequestInit) \<times> Certifier \<times> (string \<times> string) list" where
  "sampleFirst = certify hmacRuntime (createCertifier ''AK'' ''SK'' ''auto'') sampleNow PUT
     sampleURLText None (Some (StringBody ''{}''))"

definition sampleAgain :: "(error + RequestInit) \<times> Certifier \<times> (string \<times> string) list" where
  "sampleAgain = certify hmacRuntime (fst (snd sampleFirst)) sampleNow PUT
     sampleURLText None (Some (StringBody ''{}''))"

definition sampleSameDay :: "(error + RequestInit) \<times> Certifier \<times> (string \<times> string) list" where
  "sampleSameDay = certify hmacRuntime (fst (snd sampleFirst)) ''2026-11-03T23:59:59.999Z'' GET
     sampleURLText None None"

definition sampleNextDay :: "(error + RequestInit) \<times> Certifier \<times> (string \<times> string) list" where
  "sampleNextDay = certify hmacRuntime (fst (snd sampleFirst)) ''2026-11-04T00:00:00.000Z'' GET
     sampleURLText None None"

text \<open>
  The bytes of a text: every character is a byte below \<open>80\<close>, or a leading byte followed
  by the one, two or three continuation bytes it announces.
\<close>

fun wellFormed :: "string \<Rightarrow> bool" where
  "wellFormed [] = True"
| "wellFormed (c # cs) =
     (if of_char c < (0x80 :: nat) then wellFormed cs
      else if isContinuation c then False
      else if of_char c < (0xE0 :: nat)
        then 1 \<le> length cs \<and> list_all isContinuation (take 1 cs) \<and> wellFormed (drop 1 cs)
      else if of_char c < (0xF0 :: nat)
        then 2 \<le> length cs \<and> list_all isContinuation (take 2 cs) \<and> wellFormed (drop 2 cs)
      else 3 \<le> length cs \<and> list_all isContinuation (take 3 cs) \<and> wellFormed (drop 3 cs))"









section \<open>Properties of the query canonicalization\<close>

lemma comparePairs_le: "comparePairs a b \<le> 0 \<longleftrightarrow> a \<le> b"
  by (auto simp: comparePairs_def less_eq_prod_def)

lemma insertBy_insort: "insertBy comparePairs x ys = insort x ys"
  by (induction ys) (simp_all add: comparePairs_le)

lemma sortBy_sort: "sortBy comparePairs xs = sort xs"
  unfolding sortBy_def sort_key_def
  by (induction xs) (simp_all add: insertBy_insort)

lemma sorted_wrt_keyThenValue: "sorted_wrt keyThenValue xs \<longleftrightarrow> sorted xs"
proof -
  have "keyThenValue = (\<le>)"
    by (intro ext) (auto simp: keyThenValue_def less_eq_prod_def)
  then show ?thesis by simp
qed

lemma filterSeen_set:
  "set (filterSeen S ps) = {(k, v). k \<noteq> [] \<and> k \<notin> S \<and> map_of ps k = Some v}"
proof (induction S ps rule: filterSeen.induct)
  case (1 S)
  then show ?case by simp
next
  case (2 S k v ps)
  then show ?case by (auto split: if_splits)
qed

lemma filterSeen_distinct: "distinct (map fst (filterSeen S ps))"
proof (induction S ps rule: filterSeen.induct)
  case (1 S)
  then show ?case by simp
next
  case (2 S k v ps)
  have "k \<notin> fst ` set (filterSeen (Set.insert k S) ps)"
    by (auto simp: filterSeen_set)
  with 2 show ?case by auto
qed

lemma filterSeen_filter:
  "distinct (map fst ps) \<Longrightarrow> fst ` set ps \<inter> T = {} \<Longrightarrow>
   filterSeen (S \<union> T) ps = filter (\<lambda>p. fst p \<noteq> [] \<and> fst p \<notin> S) ps"
proof (induction ps arbitrary: T)
  case Nil
  then show ?case by simp
next
  case (Cons p ps)
  obtain k v where p: "p = (k, v)" by (cases p)
  have d: "distinct (map fst ps)" and kn: "k \<notin> fst ` set ps" and kT: "k \<notin> T"
    and T: "fst ` set ps \<inter> T = {}"
    using Cons.prems p by auto
  have T': "fst ` set ps \<inter> Set.insert k T = {}" using T kn by auto
  have step: "filterSeen (Set.insert k (S \<union> T)) ps = filter (\<lambda>p. fst p \<noteq> [] \<and> fst p \<notin> S) ps"
    using Cons.IH [OF d T'] by simp
  show ?case using Cons.IH [OF d T] step kT by (simp add: p)
qed

lemma filterSeen_mset:
  assumes "distinct (map fst ps)" and "mset qs = mset ps"
  shows "mset (filterSeen {} qs) = mset (filterSeen {} ps)"
proof -
  have dq: "distinct (map fst qs)"
    using assms by (metis mset_map mset_eq_imp_distinct_iff)
  have "filterSeen ({} \<union> {}) ps = filter (\<lambda>p. fst p \<noteq> [] \<and> fst p \<notin> {}) ps"
    by (rule filterSeen_filter) (use assms in auto)
  moreover have "filterSeen ({} \<union> {}) qs = filter (\<lambda>p. fst p \<noteq> [] \<and> fst p \<notin> {}) qs"
    by (rule filterSeen_filter) (use dq in auto)
  ultimately show ?thesis using assms(2) by simp
qed

lemma encodedSearch_perm:
  assumes "distinct (map fst ps)" and "mset qs = mset ps"
  shows "encodedSearch qs = encodedSearch ps"
proof -
  have "mset (map encodePair (filterSeen {} qs)) = mset (map encodePair (filterSeen {} ps))"
    using filterSeen_mset [OF assms] by simp
  then have "sort (map encodePair (filterSeen {} qs)) = sort (map encodePair (filterSeen {} ps))"
    by (metis properties_for_sort sorted_sort mset_sort)
  then show ?thesis by (simp add: encodedSearch_def sortBy_sort)
qed

lemma byte_div16: "n < 256 \<Longrightarrow> n div 16 < (16 :: nat)"
  by simp

lemma below16: "n < 16 \<Longrightarrow> n \<in> set [0..<16]"
  by simp

lemma upperHex:
  assumes "n < 16"
  shows "toUpperCase [''0123456789abcdef'' ! n] = [''0123456789ABCDEF'' ! n]"
proof -
  have "list_all (\<lambda>n. toUpperCase [''0123456789abcdef'' ! n] = [''0123456789ABCDEF'' ! n]) [0..<16]"
    by code_simp
  with below16 [OF assms] show ?thesis unfolding list_all_iff by blast
qed

lemma percentByte_percentHex: "percentByte c = percentHex c"
proof -
  have a: "of_char c div 16 < (16 :: nat)" by (rule byte_div16) simp
  have b: "of_char c mod 16 < (16 :: nat)" by simp
  have "toUpperCase [x, y] = toUpperCase [x] @ toUpperCase [y]" for x y
    by (simp add: toUpperCase_def)
  then show ?thesis
    using upperHex [OF a] upperHex [OF b] by (simp add: percentByte_def percentHex_def)
qed

lemma encodeRFC3986_Cons:
  "encodeRFC3986 (c # cs) = encodeRFC3986 [c] @ encodeRFC3986 cs"
  by (simp add: encodeRFC3986_def)

lemma encodeRFC3986_append:
  "encodeRFC3986 (a @ b) = encodeRFC3986 a @ encodeRFC3986 b"
  by (simp add: encodeRFC3986_def)

lemma encodeRFC3986_concat:
  "encodeRFC3986 (concat xs) = concat (map encodeRFC3986 xs)"
  by (induction xs) (simp_all add: encodeRFC3986_append, simp add: encodeRFC3986_def)

lemma encodeRFC3986_hexDigit:
  assumes "n < 16"
  shows "encodeRFC3986 [''0123456789ABCDEF'' ! n] = [''0123456789ABCDEF'' ! n]"
proof -
  have "list_all (\<lambda>n. encodeRFC3986 [''0123456789ABCDEF'' ! n] = [''0123456789ABCDEF'' ! n]) [0..<16]"
    by code_simp
  with below16 [OF assms] show ?thesis unfolding list_all_iff by blast
qed

lemma encodeRFC3986_percentHex: "encodeRFC3986 (percentHex c) = percentHex c"
proof -
  have a: "of_char c div 16 < (16 :: nat)" by (rule byte_div16) simp
  have b: "of_char c mod 16 < (16 :: nat)" by simp
  have p: "encodeRFC3986 ''%'' = ''%''" by code_simp
  have "encodeRFC3986 (percentHex c)
      = encodeRFC3986 ''%'' @ encodeRFC3986 [''0123456789ABCDEF'' ! (of_char c div 16)]
          @ encodeRFC3986 [''0123456789ABCDEF'' ! (of_char c mod 16)]"
    unfolding percentHex_def
    by (subst encodeRFC3986_Cons, subst (2) encodeRFC3986_Cons) simp
  then show ?thesis
    using encodeRFC3986_hexDigit [OF a] encodeRFC3986_hexDigit [OF b] p
    by (simp add: percentHex_def)
qed

lemma encodeRFC3986_special:
  "encodeRFC3986 ''!'' = percentHex CHR ''!''"
  "encodeRFC3986 [CHR 0x27] = percentHex (CHR 0x27)"
  "encodeRFC3986 ''('' = percentHex CHR ''(''"
  "encodeRFC3986 '')'' = percentHex CHR '')''"
  "encodeRFC3986 ''*'' = percentHex CHR ''*''"
  by code_simp+

lemma encodeRFC3986_other:
  "c \<noteq> CHR ''!'' \<Longrightarrow> c \<noteq> CHR 0x27 \<Longrightarrow> c \<noteq> CHR ''('' \<Longrightarrow> c \<noteq> CHR '')'' \<Longrightarrow> c \<noteq> CHR ''*'' \<Longrightarrow>
   encodeRFC3986 [c] = [c]"
  by (simp add: encodeRFC3986_def)

lemma keptInQuery_iff:
  "keptInQuery c \<longleftrightarrow> uriUnreserved c \<and> c \<noteq> CHR ''!'' \<and> c \<noteq> CHR 0x27 \<and> c \<noteq> CHR ''('' \<and> c \<noteq> CHR '')''
      \<and> c \<noteq> CHR ''*''"
  unfolding keptInQuery_def uriUnreserved_def by (auto simp: less_eq_char_def)

lemma encode_char:
  "encodeRFC3986 (if uriUnreserved c then [c] else percentByte c)
     = (if keptInQuery c then [c] else percentHex c)"
proof (cases "uriUnreserved c")
  case False
  then show ?thesis
    by (simp add: keptInQuery_iff percentByte_percentHex encodeRFC3986_percentHex)
next
  case True
  show ?thesis
  proof (cases "keptInQuery c")
    case True
    then show ?thesis using encodeRFC3986_other [of c] by (simp add: keptInQuery_iff)
  next
    case False
    with True have "c = CHR ''!'' \<or> c = CHR 0x27 \<or> c = CHR ''('' \<or> c = CHR '')'' \<or> c = CHR ''*''"
      by (simp add: keptInQuery_iff)
    with True False show ?thesis using encodeRFC3986_special by auto
  qed
qed

lemma encode_text:
  "encodeRFC3986 (encodeURIComponent s)
     = concat (map (\<lambda>c. if keptInQuery c then [c] else percentHex c) s)"
  unfolding encodeURIComponent_def encodeRFC3986_concat map_map comp_def encode_char ..

text \<open>
  Claim C7. The canonical query string does not depend on the order of the parameters when
  their names are distinct. The pairs that enter it are those with a non-empty name, one per
  name: the first of that name in the input. Each key and each value is percent-encoded
  by \<open>encodeURIComponent\<close> followed by \<open>encodeRFC3986\<close>: letters, digits and \<open>- _ . ~\<close>
  are kept and every other byte becomes \<open>%XX\<close> in upper-case hexadecimal, the characters
  \<open>! ' ( ) *\<close> included (\<open>%21 %27 %28 %29 %2A\<close>). The encoded pairs are sorted by key,
  then by value, written \<open>k=v\<close> and joined with \<open>&\<close>.
\<close>

theorem query_canonicalization:
  "(distinct (map fst ps) \<and> mset qs = mset ps \<longrightarrow> encodedSearch qs = encodedSearch ps)
   \<and> set (filterSeen {} ps) = {(k, v). k \<noteq> [] \<and> map_of ps k = Some v}
   \<and> distinct (map fst (filterSeen {} ps))
   \<and> (\<exists>pairs.
        mset pairs = mset (map (\<lambda>(k, v). (encodeRFC3986 (encodeURIComponent k),
                                          encodeRFC3986 (encodeURIComponent v)))
                            (filterSeen {} ps))
        \<and> sorted_wrt keyThenValue pairs
        \<and> encodedSearch ps = join ''&'' (map (\<lambda>(k, v). k @ ''='' @ v) pairs))
   \<and> encodeRFC3986 (encodeURIComponent s)
       = concat (map (\<lambda>c. if keptInQuery c then [c] else percentHex c) s)
   \<and> encodeRFC3986 (encodeURIComponent [CHR ''!'', CHR 0x27, CHR ''('', CHR '')'', CHR ''*''])
       = ''%21%27%28%29%2A''
   \<and> encodeRFC3986 (encodeURIComponent ''a b/c=d&e~'') = ''a%20b%2Fc%3Dd%26e~''"
proof (intro conjI impI)
  show "encodedSearch qs = encodedSearch ps"
    if "distinct (map fst ps) \<and> mset qs = mset ps"
    using that encodedSearch_perm by blast
  show "set (filterSeen {} ps) = {(k, v). k \<noteq> [] \<and> map_of ps k = Some v}"
    by (simp add: filterSeen_set)
  show "distinct (map fst (filterSeen {} ps))"
    by (rule filterSeen_distinct)
  show "encodeRFC3986 (encodeURIComponent s)
       = concat (map (\<lambda>c. if keptInQuery c then [c] else percentHex c) s)"
    by (rule encode_text)
  show "encodeRFC3986 (encodeURIComponent [CHR ''!'', CHR 0x27, CHR ''('', CHR '')'', CHR ''*''])
       = ''%21%27%28%29%2A''"
    by code_simp
  show "encodeRFC3986 (encodeURIComponent ''a b/c=d&e~'') = ''a%20b%2Fc%3Dd%26e~''"
    by code_simp
  let ?enc = "map encodePair (filterSeen {} ps)"
  have enc: "?enc = map (\<lambda>(k, v). (encodeRFC3986 (encodeURIComponent k),
                                    encodeRFC3986 (encodeURIComponent v))) (filterSeen {} ps)"
    by (simp add: encodePair_def case_prod_beta)
  have shape: "(\<lambda>pair. join ''='' [fst pair, snd pair]) = (\<lambda>(k, v). k @ ''='' @ v)"
    by (intro ext) (simp add: case_prod_beta)
  have "mset (sort ?enc) = mset ?enc" by simp
  moreover have "sorted_wrt keyThenValue (sort ?enc)"
    by (simp add: sorted_wrt_keyThenValue)
  moreover have "encodedSearch ps = join ''&'' (map (\<lambda>(k, v). k @ ''='' @ v) (sort ?enc))"
    unfolding encodedSearch_def sortBy_sort shape ..
  ultimately show "\<exists>pairs.
        mset pairs = mset (map (\<lambda>(k, v). (encodeRFC3986 (encodeURIComponent k),
                                          encodeRFC3986 (encodeURIComponent v)))
                            (filterSeen {} ps))
        \<and> sorted_wrt keyThenValue pairs
        \<and> encodedSearch ps = join ''&'' (map (\<lambda>(k, v). k @ ''='' @ v) pairs)"
    unfolding enc by blast
qed

theorem query_canonicalization_witness:
  "distinct (map fst [(''b*'', ''2!''), (''a('', '')'')])
   \<and> mset [(''a('', '')''), (''b*'', ''2!'')] = mset [(''b*'', ''2!''), (''a('', '')'')]
   \<and> encodedSearch [(''a('', '')''), (''b*'', ''2!'')] = encodedSearch [(''b*'', ''2!''), (''a('', '')'')]
   \<and> encodedSearch [(''b*'', ''2!''), (''a('', '')'')] = ''a%28=%29&b%2A=2%21''
   \<and> filterSeen {} [(''k'', ''v2''), ([], ''x''), (''k'', ''v1''), (''a b'', [CHR 0x27])]
       = [(''k'', ''v2''), (''a b'', [CHR 0x27])]
   \<and> encodedSearch [(''k'', ''v2''), ([], ''x''), (''k'', ''v1''), (''a b'', [CHR 0x27])]
       = ''a%20b=%27&k=v2''
   \<and> encodedSearch [(''a'', ''2''), (''b'', ''1''), (''a'', ''1'')] = ''a=2&b=1''"
proof -
  have d: "distinct (map fst [(''b*'', ''2!''), (''a('', '')'')])" by simp
  have m: "mset [(''a('', '')''), (''b*'', ''2!'')] = mset [(''b*'', ''2!''), (''a('', '')'')]" by simp
  have e: "encodedSearch [(''a('', '')''), (''b*'', ''2!'')] = encodedSearch [(''b*'', ''2!''), (''a('', '')'')]"
    using query_canonicalization [of "[(''b*'', ''2!''), (''a('', '')'')]" "[(''a('', '')''), (''b*'', ''2!'')]"]
      d m by blast
  have v: "encodedSearch [(''b*'', ''2!''), (''a('', '')'')] = ''a%28=%29&b%2A=2%21''" by code_simp
  have f: "filterSeen {} [(''k'', ''v2''), ([], ''x''), (''k'', ''v1''), (''a b'', [CHR 0x27])]
       = [(''k'', ''v2''), (''a b'', [CHR 0x27])]" by code_simp
  have w: "encodedSearch [(''k'', ''v2''), ([], ''x''), (''k'', ''v1''), (''a b'', [CHR 0x27])]
       = ''a%20b=%27&k=v2''" by code_simp
  have x: "encodedSearch [(''a'', ''2''), (''b'', ''1''), (''a'', ''1'')] = ''a=2&b=1''" by code_simp
  from d m e v f w x show ?thesis by blast
qed

section \<open>Properties of the transport executor and the facade\<close>

lemma execute_resolves:
  assumes "resolves rt odm now fetch method vTable body reply"
  shows "fst (execute rt odm now fetch okCode method vTable body) =
           (if status reply = okCode then Inr reply else Inl (HttpException (status reply)))"
proof -
  let ?url = "''https://'' @ hostname odm @ ''/'' @ bucket odm @ ''/'' @ vTable"
  obtain r c' calls where c: "certify rt (certifier odm) now method ?url None (map_option StringBody body) = (r, c', calls)"
    by (cases "certify rt (certifier odm) now method ?url None (map_option StringBody body)") auto
  from assms c obtain signed where r: "r = Inr signed" and f: "fetch ?url signed = Inr reply"
    by (auto simp: resolves_def split: sum.splits)
  show ?thesis using c r f by (simp add: execute_def Let_def)
qed

lemma execute_Inr:
  assumes "fst (execute rt odm now fetch okCode method vTable body) = Inr reply"
  shows "resolves rt odm now fetch method vTable body reply \<and> status reply = okCode"
proof -
  let ?url = "''https://'' @ hostname odm @ ''/'' @ bucket odm @ ''/'' @ vTable"
  obtain r c' calls where c: "certify rt (certifier odm) now method ?url None (map_option StringBody body) = (r, c', calls)"
    by (cases "certify rt (certifier odm) now method ?url None (map_option StringBody body)") auto
  show ?thesis using assms c
    by (auto simp: execute_def resolves_def Let_def split: sum.splits if_splits)
qed


text \<open>
  A request answered with status 409 and the body text \<open>BucketAlreadyExists\<close>, where 200
  is expected: the error is an \<open>HttpException\<close> with the code 409, and its message
  \<open>HTTP Error 409\<close> does not contain the body text.
\<close>

theorem execute_conflict_counterexample:
  "fst (execute sampleRuntime sampleODM sampleNow (answering 409 ''BucketAlreadyExists'') 200 PUT
          ''users/42.json'' (Some ''{}'')) = Inl (HttpException 409)
   \<and> errorMessage (HttpException 409) = Some ''HTTP Error 409''
   \<and> \<not> sublist ''BucketAlreadyExists'' ''HTTP Error 409''"
  by code_simp

text \<open>
  Claim C4, as the code has it. For every request that is signed and answered, \<open>execute\<close>
  returns the response exactly when its status equals the expected code \<open>okCode\<close>;
  otherwise it fails with an \<open>HttpException\<close> that carries the status code and nothing
  else, whatever the status (403, 404, 409 or any other): its message is \<open>HTTP Error\<close>
  followed by the code, and the body text of the response is not part of it.
\<close>

theorem execute_classifies_by_status:
  assumes "resolves rt odm now fetch method vTable body reply"
  shows "(fst (execute rt odm now fetch okCode method vTable body) = Inr reply
            \<longleftrightarrow> status reply = okCode)
       \<and> (status reply \<noteq> okCode \<longrightarrow>
            fst (execute rt odm now fetch okCode method vTable body)
              = Inl (HttpException (status reply)))
       \<and> errorMessage (HttpException (status reply))
            = Some (''HTTP Error '' @ decimal (status reply))"
  using execute_resolves [OF assms, of okCode] by simp

theorem execute_classifies_by_status_witness:
  "resolves sampleRuntime sampleODM sampleNow (answering 404 ''gone'') GET ''users/42.json'' None
     \<lparr>status = 404, bodyText = ''gone''\<rparr>
   \<and> fst (execute sampleRuntime sampleODM sampleNow (answering 404 ''gone'') 200 GET
            ''users/42.json'' None) = Inl (HttpException 404)
   \<and> errorMessage (HttpException 404) = Some (''HTTP Error '' @ decimal 404)"
proof -
  have r: "resolves sampleRuntime sampleODM sampleNow (answering 404 ''gone'') GET
             ''users/42.json'' None \<lparr>status = 404, bodyText = ''gone''\<rparr>"
    by code_simp
  from execute_classifies_by_status [OF r, of 200] r show ?thesis by simp
qed

lemma findById_execute:
  "fst (findById rt odm now fetch vTable i) =
     (case (case fst (execute rt odm now fetch 200 GET (vTable @ ''/'' @ i @ ''.json'') None) of
              Inl e \<Rightarrow> Inl e
            | Inr reply \<Rightarrow>
                (case jsonParse rt (bodyText reply) of
                   None \<Rightarrow> Inl SyntaxError
                 | Some document \<Rightarrow>
                     if isTruthy document \<and>
                        \<not> (case getId document of None \<Rightarrow> False | Some v \<Rightarrow> isTruthy v)
                     then setId i document
                     else Inr document)) of
        Inl e \<Rightarrow> (if e = HttpException 404 then Inr JNull else Inl e)
      | Inr document \<Rightarrow> Inr document)"
  by (simp add: findById_def Let_def case_prod_beta)

lemma exists_execute:
  "fst (exists rt odm now fetch vTable i) =
     (case fst (execute rt odm now fetch 200 HEAD (vTable @ ''/'' @ i @ ''.json'') None) of
        Inl e \<Rightarrow> False | Inr r \<Rightarrow> True)"
  by (simp add: exists_def Let_def case_prod_beta)

lemma insertDoc_execute:
  "fst (insertDoc rt odm now fetch vTable document) =
     (case fst (execute rt odm now fetch 200 PUT
            (vTable @ ''/'' @ templateOf (map_of document ''_id'') @ ''.json'')
            (Some (jsonStringify rt (JObject document)))) of
        Inl e \<Rightarrow> Inl e | Inr r \<Rightarrow> Inr document)"
  by (simp add: insertDoc_def Let_def case_prod_beta)

lemma assign_absent: "map_of props name = None \<Longrightarrow> assign name v props = props @ [(name, v)]"
  by (induction props) (auto split: if_splits)

text \<open>
  Claim C8. \<open>findById\<close> on a request answered with status 404 returns \<open>null\<close>; every
  other failure of the request is returned as it is, and so is the failure to parse the
  body; when the body of a 200 answer parses to an object without an \<open>_id\<close> property,
  the returned document is that object with \<open>_id\<close> set to the id of the request path.
\<close>

theorem findById_missing_and_id:
  "(resolves rt odm now fetch GET (vTable @ ''/'' @ i @ ''.json'') None reply \<and> status reply = 404
      \<longrightarrow> fst (findById rt odm now fetch vTable i) = Inr JNull)
   \<and> (fst (execute rt odm now fetch 200 GET (vTable @ ''/'' @ i @ ''.json'') None) = Inl e
        \<and> e \<noteq> HttpException 404
      \<longrightarrow> fst (findById rt odm now fetch vTable i) = Inl e)
   \<and> (resolves rt odm now fetch GET (vTable @ ''/'' @ i @ ''.json'') None reply \<and> status reply = 200
        \<and> jsonParse rt (bodyText reply) = None
      \<longrightarrow> fst (findById rt odm now fetch vTable i) = Inl SyntaxError)
   \<and> (resolves rt odm now fetch GET (vTable @ ''/'' @ i @ ''.json'') None reply \<and> status reply = 200
        \<and> jsonParse rt (bodyText reply) = Some (JObject props) \<and> map_of props ''_id'' = None
      \<longrightarrow> fst (findById rt odm now fetch vTable i) = Inr (JObject (props @ [(''_id'', JString i)]))
          \<and> getId (JObject (props @ [(''_id'', JString i)])) = Some (JString i))"
proof (intro conjI impI)
  assume "resolves rt odm now fetch GET (vTable @ ''/'' @ i @ ''.json'') None reply \<and> status reply = 404"
  then show "fst (findById rt odm now fetch vTable i) = Inr JNull"
    using execute_resolves [of rt odm now fetch GET "vTable @ ''/'' @ i @ ''.json''" None reply 200]
    by (simp add: findById_execute)
next
  assume "fst (execute rt odm now fetch 200 GET (vTable @ ''/'' @ i @ ''.json'') None) = Inl e
        \<and> e \<noteq> HttpException 404"
  then show "fst (findById rt odm now fetch vTable i) = Inl e"
    by (simp add: findById_execute)
next
  assume "resolves rt odm now fetch GET (vTable @ ''/'' @ i @ ''.json'') None reply \<and> status reply = 200
        \<and> jsonParse rt (bodyText reply) = None"
  then show "fst (findById rt odm now fetch vTable i) = Inl SyntaxError"
    using execute_resolves [of rt odm now fetch GET "vTable @ ''/'' @ i @ ''.json''" None reply 200]
    by (simp add: findById_execute)
next
  assume a: "resolves rt odm now fetch GET (vTable @ ''/'' @ i @ ''.json'') None reply \<and> status reply = 200
        \<and> jsonParse rt (bodyText reply) = Some (JObject props) \<and> map_of props ''_id'' = None"
  then show "fst (findById rt odm now fetch vTable i) = Inr (JObject (props @ [(''_id'', JString i)]))"
    using execute_resolves [of rt odm now fetch GET "vTable @ ''/'' @ i @ ''.json''" None reply 200]
    by (simp add: findById_execute assign_absent)
  from a show "getId (JObject (props @ [(''_id'', JString i)])) = Some (JString i)"
    by (simp add: map_add_def)
qed

theorem findById_missing_and_id_witness:
  "resolves sampleRuntime sampleODM sampleNow (answering 404 ''gone'') GET (''users'' @ ''/'' @ ''42'' @ ''.json'') None
     \<lparr>status = 404, bodyText = ''gone''\<rparr>
   \<and> fst (findById sampleRuntime sampleODM sampleNow (answering 404 ''gone'') ''users'' ''42'') = Inr JNull
   \<and> fst (execute sampleRuntime sampleODM sampleNow (answering 500 ''oops'') 200 GET (''users'' @ ''/'' @ ''42'' @ ''.json'') None)
       = Inl (HttpException 500)
   \<and> fst (findById sampleRuntime sampleODM sampleNow (answering 500 ''oops'') ''users'' ''42'') = Inl (HttpException 500)
   \<and> resolves sampleRuntime sampleODM sampleNow (answering 200 ''jane'') GET (''users'' @ ''/'' @ ''42'' @ ''.json'') None
     \<lparr>status = 200, bodyText = ''jane''\<rparr>
   \<and> jsonParse sampleRuntime ''jane'' = Some (JObject [(''name'', JString ''Jane'')])
   \<and> fst (findById sampleRuntime sampleODM sampleNow (answering 200 ''jane'') ''users'' ''42'')
       = Inr (JObject [(''name'', JString ''Jane''), (''_id'', JString ''42'')])"
proof -
  have r404: "resolves sampleRuntime sampleODM sampleNow (answering 404 ''gone'') GET
      (''users'' @ ''/'' @ ''42'' @ ''.json'') None \<lparr>status = 404, bodyText = ''gone''\<rparr>"
    by code_simp
  have e500: "fst (execute sampleRuntime sampleODM sampleNow (answering 500 ''oops'') 200 GET
      (''users'' @ ''/'' @ ''42'' @ ''.json'') None) = Inl (HttpException 500)"
    by code_simp
  have r200: "resolves sampleRuntime sampleODM sampleNow (answering 200 ''jane'') GET
      (''users'' @ ''/'' @ ''42'' @ ''.json'') None \<lparr>status = 200, bodyText = ''jane''\<rparr>"
    by code_simp
  have p: "jsonParse sampleRuntime ''jane'' = Some (JObject [(''name'', JString ''Jane'')])"
    by code_simp
  have a: "fst (findById sampleRuntime sampleODM sampleNow (answering 404 ''gone'') ''users'' ''42'') = Inr JNull"
    using findById_missing_and_id [of sampleRuntime sampleODM sampleNow "answering 404 ''gone''"
        "''users''" "''42''" "\<lparr>status = 404, bodyText = ''gone''\<rparr>"] r404 by simp
  have b: "fst (findById sampleRuntime sampleODM sampleNow (answering 500 ''oops'') ''users'' ''42'') = Inl (HttpException 500)"
    using findById_missing_and_id [of sampleRuntime sampleODM sampleNow "answering 500 ''oops''"
        "''users''" "''42''" _ "HttpException 500"] e500 by simp
  have c: "fst (findById sampleRuntime sampleODM sampleNow (answering 200 ''jane'') ''users'' ''42'')
       = Inr (JObject [(''name'', JString ''Jane''), (''_id'', JString ''42'')])"
    using findById_missing_and_id [of sampleRuntime sampleODM sampleNow "answering 200 ''jane''"
        "''users''" "''42''" "\<lparr>status = 200, bodyText = ''jane''\<rparr>" _ "[(''name'', JString ''Jane'')]"] r200 p by simp
  from r404 a e500 b r200 p c show ?thesis by blast
qed


text \<open>
  Claim C9. \<open>exists\<close> returns a boolean for every outcome of the request: \<open>true\<close> exactly
  when the \<open>HEAD\<close> request is answered with status 200, and \<open>false\<close> when the request
  fails with any error (the signer's, the transport's, or a status other than 200).
\<close>

theorem exists_never_throws:
  "fst (exists rt odm now fetch vTable i)
     = (\<exists>reply. resolves rt odm now fetch HEAD (vTable @ ''/'' @ i @ ''.json'') None reply
                 \<and> status reply = 200)
   \<and> (fst (execute rt odm now fetch 200 HEAD (vTable @ ''/'' @ i @ ''.json'') None) = Inl e
        \<longrightarrow> fst (exists rt odm now fetch vTable i) = False)
   \<and> (resolves rt odm now fetch HEAD (vTable @ ''/'' @ i @ ''.json'') None reply
        \<and> status reply \<noteq> 200
        \<longrightarrow> fst (exists rt odm now fetch vTable i) = False)"
proof (intro conjI impI)
  let ?p = "vTable @ ''/'' @ i @ ''.json''"
  show "fst (exists rt odm now fetch vTable i)
     = (\<exists>reply. resolves rt odm now fetch HEAD ?p None reply \<and> status reply = 200)"
  proof (cases "fst (execute rt odm now fetch 200 HEAD ?p None)")
    case (Inl err)
    have "\<not> (resolves rt odm now fetch HEAD ?p None reply \<and> status reply = 200)" for reply
    proof
      assume a: "resolves rt odm now fetch HEAD ?p None reply \<and> status reply = 200"
      then have "fst (execute rt odm now fetch 200 HEAD ?p None) = Inr reply"
        using execute_resolves [of rt odm now fetch HEAD ?p None reply 200] by simp
      with Inl show False by simp
    qed
    then have "\<not> (\<exists>reply. resolves rt odm now fetch HEAD ?p None reply \<and> status reply = 200)"
      by blast
    moreover have "\<not> fst (exists rt odm now fetch vTable i)"
      using Inl by (simp add: exists_execute)
    ultimately show ?thesis by blast
  next
    case (Inr r)
    from execute_Inr [OF Inr] Inr show ?thesis by (auto simp: exists_execute)
  qed
  show "fst (exists rt odm now fetch vTable i) = False"
    if "fst (execute rt odm now fetch 200 HEAD ?p None) = Inl e"
    using that by (simp add: exists_execute)
  show "fst (exists rt odm now fetch vTable i) = False"
    if "resolves rt odm now fetch HEAD ?p None reply \<and> status reply \<noteq> 200"
    using that execute_resolves [of rt odm now fetch HEAD ?p None reply 200]
    by (simp add: exists_execute)
qed

theorem exists_never_throws_witness:
  "fst (execute sampleRuntime sampleODM sampleNow (\<lambda>url request. Inl ''ECONNRESET'') 200 HEAD
          (''users'' @ ''/'' @ ''42'' @ ''.json'') None) = Inl (FetchError ''ECONNRESET'')
   \<and> fst (exists sampleRuntime sampleODM sampleNow (\<lambda>url request. Inl ''ECONNRESET'') ''users'' ''42'') = False
   \<and> resolves sampleRuntime sampleODM sampleNow (answering 500 ''oops'') HEAD
        (''users'' @ ''/'' @ ''42'' @ ''.json'') None \<lparr>status = 500, bodyText = ''oops''\<rparr>
   \<and> fst (exists sampleRuntime sampleODM sampleNow (answering 500 ''oops'') ''users'' ''42'') = False
   \<and> resolves sampleRuntime sampleODM sampleNow (answering 200 []) HEAD
        (''users'' @ ''/'' @ ''42'' @ ''.json'') None \<lparr>status = 200, bodyText = []\<rparr>
   \<and> fst (exists sampleRuntime sampleODM sampleNow (answering 200 []) ''users'' ''42'') = True"
proof -
  have n: "fst (execute sampleRuntime sampleODM sampleNow (\<lambda>url request. Inl ''ECONNRESET'') 200 HEAD
          (''users'' @ ''/'' @ ''42'' @ ''.json'') None) = Inl (FetchError ''ECONNRESET'')"
    by code_simp
  have r500: "resolves sampleRuntime sampleODM sampleNow (answering 500 ''oops'') HEAD
        (''users'' @ ''/'' @ ''42'' @ ''.json'') None \<lparr>status = 500, bodyText = ''oops''\<rparr>"
    by code_simp
  have r200: "resolves sampleRuntime sampleODM sampleNow (answering 200 []) HEAD
        (''users'' @ ''/'' @ ''42'' @ ''.json'') None \<lparr>status = 200, bodyText = []\<rparr>"
    by code_simp
  have s500: "status \<lparr>status = 500, bodyText = ''oops''\<rparr> \<noteq> 200" by simp
  have s200: "status \<lparr>status = 200, bodyText = []\<rparr> = 200" by simp
  have a: "fst (exists sampleRuntime sampleODM sampleNow (\<lambda>url request. Inl ''ECONNRESET'') ''users'' ''42'') = False"
    using exists_never_throws [where rt = sampleRuntime and odm = sampleODM and now = sampleNow
        and fetch = "\<lambda>url request. Inl ''ECONNRESET''" and vTable = "''users''" and i = "''42''"
        and e = "FetchError ''ECONNRESET''"] n by blast
  have b: "fst (exists sampleRuntime sampleODM sampleNow (answering 500 ''oops'') ''users'' ''42'') = False"
    using exists_never_throws [where rt = sampleRuntime and odm = sampleODM and now = sampleNow
        and fetch = "answering 500 ''oops''" and vTable = "''users''" and i = "''42''"
        and reply = "\<lparr>status = 500, bodyText = ''oops''\<rparr>"] r500 s500 by blast
  have c: "fst (exists sampleRuntime sampleODM sampleNow (answering 200 []) ''users'' ''42'') = True"
    using exists_never_throws [where rt = sampleRuntime and odm = sampleODM and now = sampleNow
        and fetch = "answering 200 []" and vTable = "''users''" and i = "''42''"] r200 s200
    by blast
  from n a r500 b r200 c show ?thesis by blast
qed

lemma listIdsLoop_not_ok:
  assumes "resolves rt odm now fetch GET (''?'' @ paramsToString (withMarker marker params)) None reply"
      and "status reply \<noteq> 200"
  shows "fst (listIdsLoop rt vTable odm params ids marker ((now, fetch) # later))
           = Some (Inl (HttpException (status reply)))"
proof -
  let ?t = "''?'' @ paramsToString (withMarker marker params)"
  obtain r odm' where e: "execute rt odm now fetch 200 GET ?t None = (r, odm')"
    by (cases "execute rt odm now fetch 200 GET ?t None") auto
  have "r = Inl (HttpException (status reply))"
    using execute_resolves [OF assms(1), of 200] assms(2) e by simp
  with e show ?thesis by (simp add: Let_def)
qed

text \<open>
  Claim C10. Each operation succeeds on one status code only. \<open>deleteById\<close> returns the
  response on 204 and fails with the status code on any other status, 200 included;
  \<open>findById\<close>, \<open>insert\<close>, \<open>deleteByIds\<close> and each page request of the listing read a
  result on 200 only and otherwise fail with the status code (a 404 on \<open>findById\<close> gives
  \<open>null\<close>); \<open>exists\<close> is \<open>true\<close> on 200 only, so \<open>false\<close> on any other 2xx status.
\<close>

theorem one_success_status_each:
  "(resolves rt odm now fetch DELETE (vTable @ ''/'' @ i @ ''.json'') None reply \<longrightarrow>
      fst (deleteById rt odm now fetch vTable i)
        = (if status reply = 204 then Inr reply else Inl (HttpException (status reply))))
   \<and> (resolves rt odm now fetch GET (vTable @ ''/'' @ i @ ''.json'') None reply
        \<and> status reply \<noteq> 200 \<longrightarrow>
      fst (findById rt odm now fetch vTable i)
        = (if status reply = 404 then Inr JNull else Inl (HttpException (status reply))))
   \<and> (resolves rt odm now fetch PUT (vTable @ ''/'' @ templateOf (map_of document ''_id'') @ ''.json'')
          (Some (jsonStringify rt (JObject document))) reply \<longrightarrow>
      fst (insertDoc rt odm now fetch vTable document)
        = (if status reply = 200 then Inr document else Inl (HttpException (status reply))))
   \<and> (resolves rt odm now fetch POST ''?delete'' (Some (deleteManifest vTable ids)) reply \<longrightarrow>
      fst (deleteByIds rt odm now fetch vTable ids)
        = (if status reply = 200 then Inr reply else Inl (HttpException (status reply))))
   \<and> (resolves rt odm now fetch GET (''?'' @ paramsToString (withMarker marker params)) None reply
        \<and> status reply \<noteq> 200 \<longrightarrow>
      fst (listIdsLoop rt vTable odm params found marker ((now, fetch) # later))
        = Some (Inl (HttpException (status reply))))
   \<and> (resolves rt odm now fetch HEAD (vTable @ ''/'' @ i @ ''.json'') None reply \<longrightarrow>
      fst (exists rt odm now fetch vTable i) = (status reply = 200))"
proof (intro conjI impI)
  show "fst (deleteById rt odm now fetch vTable i)
        = (if status reply = 204 then Inr reply else Inl (HttpException (status reply)))"
    if "resolves rt odm now fetch DELETE (vTable @ ''/'' @ i @ ''.json'') None reply"
    using execute_resolves [OF that, of 204] by (simp add: deleteById_def)
  show "fst (findById rt odm now fetch vTable i)
        = (if status reply = 404 then Inr JNull else Inl (HttpException (status reply)))"
    if "resolves rt odm now fetch GET (vTable @ ''/'' @ i @ ''.json'') None reply \<and> status reply \<noteq> 200"
    using that execute_resolves [of rt odm now fetch GET "vTable @ ''/'' @ i @ ''.json''" None reply 200]
    by (simp add: findById_execute)
  show "fst (insertDoc rt odm now fetch vTable document)
        = (if status reply = 200 then Inr document else Inl (HttpException (status reply)))"
    if "resolves rt odm now fetch PUT (vTable @ ''/'' @ templateOf (map_of document ''_id'') @ ''.json'')
          (Some (jsonStringify rt (JObject document))) reply"
    using execute_resolves [OF that, of 200] by (simp add: insertDoc_execute)
  show "fst (deleteByIds rt odm now fetch vTable ids)
        = (if status reply = 200 then Inr reply else Inl (HttpException (status reply)))"
    if "resolves rt odm now fetch POST ''?delete'' (Some (deleteManifest vTable ids)) reply"
    using execute_resolves [OF that, of 200] by (simp add: deleteByIds_def)
  show "fst (listIdsLoop rt vTable odm params found marker ((now, fetch) # later))
        = Some (Inl (HttpException (status reply)))"
    if "resolves rt odm now fetch GET (''?'' @ paramsToString (withMarker marker params)) None reply
        \<and> status reply \<noteq> 200"
    using that listIdsLoop_not_ok by blast
  show "fst (exists rt odm now fetch vTable i) = (status reply = 200)"
    if "resolves rt odm now fetch HEAD (vTable @ ''/'' @ i @ ''.json'') None reply"
    using execute_resolves [OF that, of 200] by (simp add: exists_execute)
qed


theorem one_success_status_each_witness:
  "resolves sampleRuntime sampleODM sampleNow (answering 200 []) DELETE (''users'' @ ''/'' @ ''42'' @ ''.json'')
      None \<lparr>status = 200, bodyText = []\<rparr>
   \<and> fst (deleteById sampleRuntime sampleODM sampleNow (answering 200 []) ''users'' ''42'')
       = Inl (HttpException 200)
   \<and> resolves sampleRuntime sampleODM sampleNow (answering 204 []) GET (''users'' @ ''/'' @ ''42'' @ ''.json'')
      None \<lparr>status = 204, bodyText = []\<rparr>
   \<and> fst (findById sampleRuntime sampleODM sampleNow (answering 204 []) ''users'' ''42'')
       = Inl (HttpException 204)
   \<and> resolves sampleRuntime sampleODM sampleNow (answering 201 [])
        PUT (''users'' @ ''/'' @ templateOf (map_of [(''_id'', JString ''42'')] ''_id'') @ ''.json'')
        (Some (jsonStringify sampleRuntime (JObject [(''_id'', JString ''42'')])))
        \<lparr>status = 201, bodyText = []\<rparr>
   \<and> fst (insertDoc sampleRuntime sampleODM sampleNow (answering 201 []) ''users'' [(''_id'', JString ''42'')])
       = Inl (HttpException 201)
   \<and> resolves sampleRuntime sampleODM sampleNow (answering 204 []) POST ''?delete''
        (Some (deleteManifest ''users'' [''42''])) \<lparr>status = 204, bodyText = []\<rparr>
   \<and> fst (deleteByIds sampleRuntime sampleODM sampleNow (answering 204 []) ''users'' [''42''])
       = Inl (HttpException 204)
   \<and> resolves sampleRuntime sampleODM sampleNow (answering 206 [])
        GET (''?'' @ paramsToString (withMarker None [(''list-type'', ''2'')])) None
        \<lparr>status = 206, bodyText = []\<rparr>
   \<and> fst (listIdsLoop sampleRuntime ''users/'' sampleODM [(''list-type'', ''2'')] [] None
            [(sampleNow, answering 206 [])])
       = Some (Inl (HttpException 206))
   \<and> resolves sampleRuntime sampleODM sampleNow (answering 204 []) HEAD (''users'' @ ''/'' @ ''42'' @ ''.json'')
      None \<lparr>status = 204, bodyText = []\<rparr>
   \<and> fst (exists sampleRuntime sampleODM sampleNow (answering 204 []) ''users'' ''42'') = False"
proof -
  have r1: "resolves sampleRuntime sampleODM sampleNow (answering 200 []) DELETE
      (''users'' @ ''/'' @ ''42'' @ ''.json'') None \<lparr>status = 200, bodyText = []\<rparr>"
    by code_simp
  have r2: "resolves sampleRuntime sampleODM sampleNow (answering 204 []) GET
      (''users'' @ ''/'' @ ''42'' @ ''.json'') None \<lparr>status = 204, bodyText = []\<rparr>"
    by code_simp
  have r3: "resolves sampleRuntime sampleODM sampleNow (answering 201 [])
        PUT (''users'' @ ''/'' @ templateOf (map_of [(''_id'', JString ''42'')] ''_id'') @ ''.json'')
        (Some (jsonStringify sampleRuntime (JObject [(''_id'', JString ''42'')])))
        \<lparr>status = 201, bodyText = []\<rparr>"
    by code_simp
  have r4: "resolves sampleRuntime sampleODM sampleNow (answering 204 []) POST ''?delete''
        (Some (deleteManifest ''users'' [''42''])) \<lparr>status = 204, bodyText = []\<rparr>"
    by code_simp
  have r5: "resolves sampleRuntime sampleODM sampleNow (answering 206 [])
        GET (''?'' @ paramsToString (withMarker None [(''list-type'', ''2'')])) None
        \<lparr>status = 206, bodyText = []\<rparr>"
    by code_simp
  have r6: "resolves sampleRuntime sampleODM sampleNow (answering 204 []) HEAD
      (''users'' @ ''/'' @ ''42'' @ ''.json'') None \<lparr>status = 204, bodyText = []\<rparr>"
    by code_simp
  note t = one_success_status_each [where rt = sampleRuntime and odm = sampleODM and now = sampleNow
      and vTable = "''users''" and i = "''42''"]
  have a1: "fst (deleteById sampleRuntime sampleODM sampleNow (answering 200 []) ''users'' ''42'')
       = Inl (HttpException 200)"
    using t [where fetch = "answering 200 []" and reply = "\<lparr>status = 200, bodyText = []\<rparr>",
        THEN conjunct1] r1 by simp
  have a2: "fst (findById sampleRuntime sampleODM sampleNow (answering 204 []) ''users'' ''42'')
       = Inl (HttpException 204)"
    using t [where fetch = "answering 204 []" and reply = "\<lparr>status = 204, bodyText = []\<rparr>",
        THEN conjunct2, THEN conjunct1] r2 by simp
  have a3: "fst (insertDoc sampleRuntime sampleODM sampleNow (answering 201 []) ''users'' [(''_id'', JString ''42'')])
       = Inl (HttpException 201)"
    using t [where fetch = "answering 201 []" and reply = "\<lparr>status = 201, bodyText = []\<rparr>"
        and document = "[(''_id'', JString ''42'')]",
        THEN conjunct2, THEN conjunct2, THEN conjunct1] r3 by simp
  have a4: "fst (deleteByIds sampleRuntime sampleODM sampleNow (answering 204 []) ''users'' [''42''])
       = Inl (HttpException 204)"
    using t [where fetch = "answering 204 []" and reply = "\<lparr>status = 204, bodyText = []\<rparr>"
        and ids = "[''42'']",
        THEN conjunct2, THEN conjunct2, THEN conjunct2, THEN conjunct1] r4 by simp
  have a5: "fst (listIdsLoop sampleRuntime ''users/'' sampleODM [(''list-type'', ''2'')] [] None
            [(sampleNow, answering 206 [])]) = Some (Inl (HttpException 206))"
    using one_success_status_each [where rt = sampleRuntime and odm = sampleODM and now = sampleNow
        and fetch = "answering 206 []" and reply = "\<lparr>status = 206, bodyText = []\<rparr>"
        and marker = None and params = "[(''list-type'', ''2'')]" and vTable = "''users/''"
        and found = "[]" and later = "[]",
        THEN conjunct2, THEN conjunct2, THEN conjunct2, THEN conjunct2, THEN conjunct1] r5 by simp
  have a6: "fst (exists sampleRuntime sampleODM sampleNow (answering 204 []) ''users'' ''42'') = False"
    using t [where fetch = "answering 204 []" and reply = "\<lparr>status = 204, bodyText = []\<rparr>",
        THEN conjunct2, THEN conjunct2, THEN conjunct2, THEN conjunct2, THEN conjunct2] r6 by simp
  from r1 a1 r2 a2 r3 a3 r4 a4 r5 a5 r6 a6 show ?thesis by blast
qed

text \<open>
  Claim C5. For the table \<open>users\<close> and the id \<open>42\<close>, \<open>deleteByIds\<close> sends one \<open>POST\<close> to
  \<open>?delete\<close> whose manifest has one entry, with the key \<open>users/42\<close>; \<open>insert\<close> writes
  the document of that id under \<open>users/42.json\<close>, the address \<open>deleteById\<close> deletes. The
  manifest key lacks the suffix \<open>.json\<close>, so it is not the key of the stored document.
  (The sample transports answer with the address, or the address and the body, they
  were called with.)
\<close>

theorem deleteByIds_manifest_keys:
  "deleteManifest ''users'' [''42''] = ''<Delete><Object><Key>users/42</Key></Object></Delete>''
   \<and> fst (deleteByIds sampleRuntime sampleODM sampleNow
          (\<lambda>url request. Inr \<lparr>status = 200,
              bodyText = (case initBody request of Some (StringBody b) \<Rightarrow> url @ '' '' @ b | _ \<Rightarrow> url)\<rparr>)
          ''users'' [''42''])
       = Inr \<lparr>status = 200, bodyText =
           ''https://s3.test/bucket/?delete <Delete><Object><Key>users/42</Key></Object></Delete>''\<rparr>
   \<and> fst (insertDoc sampleRuntime sampleODM sampleNow (\<lambda>url request. Inl url) ''users''
          [(''_id'', JString ''42'')])
       = Inl (FetchError ''https://s3.test/bucket/users/42.json'')
   \<and> fst (deleteById sampleRuntime sampleODM sampleNow
          (\<lambda>url request. Inr \<lparr>status = 204, bodyText = url\<rparr>) ''users'' ''42'')
       = Inr \<lparr>status = 204, bodyText = ''https://s3.test/bucket/users/42.json''\<rparr>"
  by code_simp

text \<open>The same for every table and every list of ids: each manifest key is the table, a slash
  and the id, without the suffix.\<close>

lemma deleteManifest_keys:
  "deleteManifest vTable ids
     = ''<Delete>'' @ concat (map (\<lambda>i. ''<Object><Key>'' @ (vTable @ ''/'' @ i) @ ''</Key></Object>'') ids)
         @ ''</Delete>''"
proof -
  have "join [] xs = concat xs" for xs :: "string list"
    by (induction "[] :: string" xs rule: join.induct) simp_all
  then show ?thesis by (simp add: deleteManifest_def)
qed

section \<open>Properties of the certifier\<close>

lemma certify_signedWith:
  assumes "newURL rt url = Some u"
      and "prepareHeaders rt (stripPunctuation now) bh = Some hs"
      and "kCredentials rt c (take 8 (stripPunctuation now)) = (k, c', d)"
  shows "fst (certify rt c now method url bh body) = signedWith rt c k (stripPunctuation now) method u hs body"
    and "fst (snd (certify rt c now method url bh body)) = c'"
  using assms
  by (auto simp: certify_def signedWith_def Let_def split: sum.splits option.splits)

lemma certify_calls:
  assumes "fst (certify rt c now method url bh body) = Inr signed"
  shows "\<exists>toSign. snd (snd (certify rt c now method url bh body))
           = snd (snd (kCredentials rt c (take 8 (stripPunctuation now))))
             @ [(fst (kCredentials rt c (take 8 (stripPunctuation now))), toSign)]"
  using assms
  by (auto simp: certify_def Let_def split: sum.splits option.splits prod.splits)

lemma certify_no_key:
  assumes "newURL rt url = None \<or> prepareHeaders rt (stripPunctuation now) bh = None"
  shows "fst (snd (certify rt c now method url bh body)) = c"
    and "fst (certify rt c now method url bh body) = (if newURL rt url = None then Inl InvalidURL else Inl InvalidHeader)"
  using assms
  by (auto simp: certify_def Let_def split: sum.splits option.splits prod.splits)

lemma lower_names:
  "toLowerCase ''X-Amz-Content-Sha256'' = ''x-amz-content-sha256''"
  "toLowerCase ''X-Amz-Date'' = ''x-amz-date''"
  "toLowerCase ''Authorization'' = ''authorization''"
  "toLowerCase ''Host'' = ''host''"
  by code_simp+

lemma filter_replaceFirst_same:
  "filter (\<lambda>p. fst p = n) (replaceFirst n v hs) = [(n, v)]"
  by (induction hs) (auto simp: filter_empty_conv)

lemma filter_replaceFirst_other:
  "n \<noteq> m \<Longrightarrow> filter (\<lambda>p. fst p = n) (replaceFirst m v hs) = filter (\<lambda>p. fst p = n) hs"
proof (induction hs)
  case Nil
  then show ?case by simp
next
  case (Cons p ps)
  have "filter (\<lambda>p. fst p = n) (filter (\<lambda>q. fst q \<noteq> m) ps) = filter (\<lambda>p. fst p = n) ps"
    using Cons.prems by (induction ps) auto
  with Cons show ?case by auto
qed

lemma headersGet_set_same:
  "headersSet rt name v hs = Some hs' \<Longrightarrow> toLowerCase name \<noteq> ''content-encoding'' \<Longrightarrow>
   headersGet name hs' = Some v"
  by (auto simp: headersSet_def headersGet_def filter_replaceFirst_same split: if_splits)

lemma headersGet_set_other:
  "headersSet rt name v hs = Some hs' \<Longrightarrow> toLowerCase other \<noteq> toLowerCase name \<Longrightarrow>
   headersGet other hs' = headersGet other hs"
  by (auto simp: headersSet_def headersGet_def filter_replaceFirst_other split: if_splits)

lemma headersGet_has:
  "headersHas name hs \<Longrightarrow> \<exists>v. headersGet name hs = Some v"
proof -
  assume "headersHas name hs"
  then obtain p where "p \<in> set hs" and "fst p = toLowerCase name"
    by (auto simp: headersHas_def)
  then have "filter (\<lambda>p. fst p = toLowerCase name) hs \<noteq> []"
    by (auto simp: filter_empty_conv)
  then show ?thesis by (auto simp: headersGet_def split: list.splits)
qed

lemma prepareHeaders_has_hash:
  assumes "prepareHeaders rt datetime bh = Some hs"
  shows "\<exists>v. headersGet ''X-Amz-Content-Sha256'' hs = Some v"
proof -
  from assms obtain h0 h2 where
    h2: "(if \<not> headersHas ''X-Amz-Content-Sha256'' (headersDelete ''Host'' h0)
          then headersSet rt ''X-Amz-Content-Sha256'' ''UNSIGNED-PAYLOAD'' (headersDelete ''Host'' h0)
          else Some (headersDelete ''Host'' h0)) = Some h2"
    and h3: "headersSet rt ''X-Amz-Date'' datetime h2 = Some hs"
    by (auto simp: prepareHeaders_def Let_def split: option.splits)
  have "\<exists>v. headersGet ''X-Amz-Content-Sha256'' h2 = Some v"
  proof (cases "headersHas ''X-Amz-Content-Sha256'' (headersDelete ''Host'' h0)")
    case True
    with h2 show ?thesis using headersGet_has by auto
  next
    case False
    with h2 show ?thesis
      using headersGet_set_same [of rt "''X-Amz-Content-Sha256''"] by (auto simp: lower_names)
  qed
  moreover have "headersGet ''X-Amz-Content-Sha256'' hs = headersGet ''X-Amz-Content-Sha256'' h2"
    using headersGet_set_other [OF h3] by (simp add: lower_names)
  ultimately show ?thesis by simp
qed


lemma hashHeader_total:
  assumes "prepareHeaders rt datetime bh = Some hs"
  shows "\<exists>h. hashHeader rt hs body = Inr h"
  using prepareHeaders_has_hash [OF assms] by (auto simp: hashHeader_def)


lemma certify_signed_hash:
  assumes "fst (certify rt c now method url bh body) = Inr signed"
  shows "\<exists>u hs h. newURL rt url = Some u \<and> prepareHeaders rt (stripPunctuation now) bh = Some hs
           \<and> hashHeader rt hs body = Inr h
           \<and> headersGet ''X-Amz-Content-Sha256'' (initHeaders signed) = headersGet ''X-Amz-Content-Sha256'' hs"
proof -
  from assms obtain u where u: "newURL rt url = Some u"
    by (cases "newURL rt url") (auto simp: certify_def)
  from assms u obtain hs where hs: "prepareHeaders rt (stripPunctuation now) bh = Some hs"
    by (cases "prepareHeaders rt (stripPunctuation now) bh") (auto simp: certify_def Let_def)
  obtain k c' d where k: "kCredentials rt c (take 8 (stripPunctuation now)) = (k, c', d)"
    by (cases "kCredentials rt c (take 8 (stripPunctuation now))") auto
  from certify_signedWith(1) [OF u hs k] assms
  have s: "signedWith rt c k (stripPunctuation now) method u hs body = Inr signed" by simp
  then obtain h a where h: "hashHeader rt hs body = Inr h"
    and a: "headersSet rt ''Authorization'' a hs = Some (initHeaders signed)"
    by (auto simp: signedWith_def split: sum.splits option.splits)
  have "headersGet ''X-Amz-Content-Sha256'' (initHeaders signed) = headersGet ''X-Amz-Content-Sha256'' hs"
    using headersGet_set_other [OF a] by (simp add: lower_names)
  with u hs h show ?thesis by blast
qed










lemma headersDelete_lowered:
  "headersDelete ''Host'' (map (\<lambda>p. (toLowerCase (fst p), snd p)) init)
     = map (\<lambda>p. (toLowerCase (fst p), snd p)) (filter (\<lambda>p. toLowerCase (fst p) \<noteq> ''host'') init)"
  by (induction init) (simp_all add: headersDelete_def lower_names)

lemma newHeaders_Some:
  "newHeaders rt init \<noteq> None \<Longrightarrow> newHeaders rt init = Some (map (\<lambda>p. (toLowerCase (fst p), snd p)) init)"
  by (simp add: newHeaders_def split: if_splits)

lemma prepareHeaders_without_host:
  assumes "filter (\<lambda>p. toLowerCase (fst p) \<noteq> ''host'') (case bh of None \<Rightarrow> [] | Some init \<Rightarrow> init)
         = filter (\<lambda>p. toLowerCase (fst p) \<noteq> ''host'') (case bh' of None \<Rightarrow> [] | Some init \<Rightarrow> init)"
      and "newHeaders rt (case bh of None \<Rightarrow> [] | Some init \<Rightarrow> init) \<noteq> None"
      and "newHeaders rt (case bh' of None \<Rightarrow> [] | Some init \<Rightarrow> init) \<noteq> None"
  shows "prepareHeaders rt datetime bh = prepareHeaders rt datetime bh'"
proof -
  let ?i = "case bh of None \<Rightarrow> [] | Some init \<Rightarrow> init"
  let ?i' = "case bh' of None \<Rightarrow> [] | Some init \<Rightarrow> init"
  have a: "newHeaders rt ?i = Some (map (\<lambda>p. (toLowerCase (fst p), snd p)) ?i)"
    using assms(2) by (rule newHeaders_Some)
  have b: "newHeaders rt ?i' = Some (map (\<lambda>p. (toLowerCase (fst p), snd p)) ?i')"
    using assms(3) by (rule newHeaders_Some)
  have "headersDelete ''Host'' (map (\<lambda>p. (toLowerCase (fst p), snd p)) ?i)
      = headersDelete ''Host'' (map (\<lambda>p. (toLowerCase (fst p), snd p)) ?i')"
    unfolding headersDelete_lowered using assms(1) by simp
  then show ?thesis unfolding prepareHeaders_def a b by simp
qed

lemma kCredentials_fields:
  "accessKey (fst (snd (kCredentials rt c d))) = accessKey c"
  "secretKey (fst (snd (kCredentials rt c d))) = secretKey c"
  "region (fst (snd (kCredentials rt c d))) = region c"
  by (simp_all add: kCredentials_def Let_def split: option.splits)

lemma kCredentials_again:
  "fst (kCredentials rt (fst (snd (kCredentials rt c d))) d) = fst (kCredentials rt c d)"
  "snd (snd (kCredentials rt (fst (snd (kCredentials rt c d))) d)) = []"
  by (simp_all add: kCredentials_def cacheKey_def Let_def split: option.splits)

lemma certify_state:
  "fst (snd (certify rt c now method url bh body)) = c
   \<or> fst (snd (certify rt c now method url bh body))
        = fst (snd (kCredentials rt c (take 8 (stripPunctuation now))))"
  by (auto simp: certify_def Let_def split: sum.splits option.splits prod.splits)

lemma certify_key_only:
  assumes "accessKey c1 = accessKey c" and "region c1 = region c"
      and "fst (kCredentials rt c1 (take 8 (stripPunctuation now)))
         = fst (kCredentials rt c (take 8 (stripPunctuation now)))"
  shows "fst (certify rt c1 now method url bh body) = fst (certify rt c now method url bh body)"
proof (cases "newURL rt url")
  case None
  then show ?thesis by (simp add: certify_def)
next
  case (Some u)
  show ?thesis
  proof (cases "prepareHeaders rt (stripPunctuation now) bh")
    case None
    with Some show ?thesis by (simp add: certify_def Let_def)
  next
    case (Some hs)
    obtain k c' d where k: "kCredentials rt c (take 8 (stripPunctuation now)) = (k, c', d)"
      by (cases "kCredentials rt c (take 8 (stripPunctuation now))") auto
    obtain k1 c1' d1 where k1: "kCredentials rt c1 (take 8 (stripPunctuation now)) = (k1, c1', d1)"
      by (cases "kCredentials rt c1 (take 8 (stripPunctuation now))") auto
    have kk: "k1 = k" using assms(3) k k1 by simp
    have s: "signedWith rt c1 k (stripPunctuation now) method u hs body
                 = signedWith rt c k (stripPunctuation now) method u hs body"
      unfolding signedWith_def authorization_def assms(1) assms(2) ..
    have "fst (certify rt c1 now method url bh body)
            = signedWith rt c1 k (stripPunctuation now) method u hs body"
      using certify_signedWith(1) [OF \<open>newURL rt url = Some u\<close> Some k1] kk by simp
    moreover have "fst (certify rt c now method url bh body)
            = signedWith rt c k (stripPunctuation now) method u hs body"
      by (rule certify_signedWith(1) [OF \<open>newURL rt url = Some u\<close> Some k])
    ultimately show ?thesis using s by simp
  qed
qed

lemma certify_rerun:
  "fst (certify rt (fst (snd (certify rt c now m u bh b))) now m' u' bh' b')
     = fst (certify rt c now m' u' bh' b')"
proof -
  let ?c1 = "fst (snd (certify rt c now m u bh b))"
  let ?d = "take 8 (stripPunctuation now)"
  have "accessKey ?c1 = accessKey c \<and> region ?c1 = region c
      \<and> fst (kCredentials rt ?c1 ?d) = fst (kCredentials rt c ?d)"
  proof (cases "?c1 = c")
    case True
    then show ?thesis by simp
  next
    case False
    with certify_state [of rt c now m u bh b]
    have "?c1 = fst (snd (kCredentials rt c ?d))" by blast
    then show ?thesis
      using kCredentials_fields [of rt c ?d] kCredentials_again(1) [of rt c ?d] by simp
  qed
  then show ?thesis using certify_key_only by blast
qed

text \<open>
  Claim C6. Two header sets that differ only in their \<open>Host\<close> entries (in presence, value
  or letter case of the name), both accepted by \<open>Headers\<close>, give the same signed request,
  signature included, for the same clock reading, method, address and body: whether the
  two runs start from the same certifier or the second follows the first on it.
\<close>

theorem host_header_not_signed:
  assumes "filter (\<lambda>p. toLowerCase (fst p) \<noteq> ''host'') (case bh of None \<Rightarrow> [] | Some init \<Rightarrow> init)
         = filter (\<lambda>p. toLowerCase (fst p) \<noteq> ''host'') (case bh' of None \<Rightarrow> [] | Some init \<Rightarrow> init)"
      and "newHeaders rt (case bh of None \<Rightarrow> [] | Some init \<Rightarrow> init) \<noteq> None"
      and "newHeaders rt (case bh' of None \<Rightarrow> [] | Some init \<Rightarrow> init) \<noteq> None"
  shows "fst (certify rt c now method url bh' body) = fst (certify rt c now method url bh body)
       \<and> fst (certify rt (fst (snd (certify rt c now method url bh body))) now method url bh' body)
           = fst (certify rt c now method url bh body)"
proof -
  have p: "prepareHeaders rt (stripPunctuation now) bh = prepareHeaders rt (stripPunctuation now) bh'"
    by (rule prepareHeaders_without_host [OF assms])
  have e: "fst (certify rt c now method url bh' body) = fst (certify rt c now method url bh body)"
    unfolding certify_def Let_def p ..
  with certify_rerun [of rt c now "method" url bh body "method" url bh' body] show ?thesis by simp
qed

theorem host_header_not_signed_witness:
  "fst (certify sampleRuntime (certifier sampleODM) sampleNow GET ''https://s3.test/bucket/users/42.json''
          (Some [(''X-Trace'', ''a  b''), (''Host'', ''other.example'')]) None)
     = fst (certify sampleRuntime (certifier sampleODM) sampleNow GET ''https://s3.test/bucket/users/42.json''
          (Some [(''X-Trace'', ''a  b'')]) None)
   \<and> fst (certify sampleRuntime (certifier sampleODM) sampleNow GET ''https://s3.test/bucket/users/42.json''
          (Some [(''hOST'', ''third.example'')]) None)
     = fst (certify sampleRuntime (certifier sampleODM) sampleNow GET ''https://s3.test/bucket/users/42.json''
          None None)
   \<and> isl (fst (certify sampleRuntime (certifier sampleODM) sampleNow GET ''https://s3.test/bucket/users/42.json''
          (Some [(''X-Trace'', ''a  b''), (''Host'', ''other.example'')]) None)) = False"
proof -
  have f1: "filter (\<lambda>p. toLowerCase (fst p) \<noteq> ''host'')
              (case Some [(''X-Trace'', ''a  b'')] of None \<Rightarrow> [] | Some init \<Rightarrow> init)
          = filter (\<lambda>p. toLowerCase (fst p) \<noteq> ''host'')
              (case Some [(''X-Trace'', ''a  b''), (''Host'', ''other.example'')] of None \<Rightarrow> [] | Some init \<Rightarrow> init)"
    by code_simp
  have f2: "filter (\<lambda>p. toLowerCase (fst p) \<noteq> ''host'')
              (case None :: (string \<times> string) list option of None \<Rightarrow> [] | Some init \<Rightarrow> init)
          = filter (\<lambda>p. toLowerCase (fst p) \<noteq> ''host'')
              (case Some [(''hOST'', ''third.example'')] of None \<Rightarrow> [] | Some init \<Rightarrow> init)"
    by code_simp
  have v: "newHeaders sampleRuntime (case h of None \<Rightarrow> [] | Some init \<Rightarrow> init) \<noteq> None" for h
    by (simp add: newHeaders_def sampleRuntime_def)
  have a: "fst (certify sampleRuntime (certifier sampleODM) sampleNow GET ''https://s3.test/bucket/users/42.json''
          (Some [(''X-Trace'', ''a  b''), (''Host'', ''other.example'')]) None)
     = fst (certify sampleRuntime (certifier sampleODM) sampleNow GET ''https://s3.test/bucket/users/42.json''
          (Some [(''X-Trace'', ''a  b'')]) None)"
    using host_header_not_signed [OF f1 v v] by blast
  have b: "fst (certify sampleRuntime (certifier sampleODM) sampleNow GET ''https://s3.test/bucket/users/42.json''
          (Some [(''hOST'', ''third.example'')]) None)
     = fst (certify sampleRuntime (certifier sampleODM) sampleNow GET ''https://s3.test/bucket/users/42.json''
          None None)"
    using host_header_not_signed [OF f2 v v] by blast
  have c: "isl (fst (certify sampleRuntime (certifier sampleODM) sampleNow GET ''https://s3.test/bucket/users/42.json''
          (Some [(''X-Trace'', ''a  b''), (''Host'', ''other.example'')]) None)) = False"
    by code_simp
  from a b c show ?thesis by blast
qed

lemma cacheKey_inj: "cacheKey c d = cacheKey c d' \<Longrightarrow> d = d'"
  by (simp add: cacheKey_def)

lemma kCredentials_key:
  "cacheSound rt c \<Longrightarrow> fst (kCredentials rt c d) = spec_kSigning rt (secretKey c) (region c) d"
  by (auto simp: kCredentials_def cacheSound_def spec_kSigning_def Let_def split: option.splits)

lemma cacheKey_cache_update: "cacheKey (c\<lparr>cache := x\<rparr>) d = cacheKey c d"
  by (simp add: cacheKey_def)

lemma kCredentials_sound:
  assumes "cacheSound rt c"
  shows "cacheSound rt (fst (snd (kCredentials rt c d)))"
proof (cases "cache c (cacheKey c d)")
  case None
  let ?k = "spec_kSigning rt (secretKey c) (region c) d"
  let ?c' = "c\<lparr>cache := (cache c)(cacheKey c d \<mapsto> ?k)\<rparr>"
  have c': "fst (snd (kCredentials rt c d)) = ?c'"
    using None by (simp add: kCredentials_def Let_def spec_kSigning_def)
  have "k = spec_kSigning rt (secretKey ?c') (region ?c') d'"
    if "cache ?c' (cacheKey ?c' d') = Some k" for d' k
  proof (cases "cacheKey c d' = cacheKey c d")
    case True
    then have "d' = d" by (rule cacheKey_inj)
    moreover have "cache ?c' (cacheKey ?c' d') = Some ?k"
      using True by (simp add: cacheKey_cache_update)
    ultimately show ?thesis using that by simp
  next
    case False
    then have "cache ?c' (cacheKey ?c' d') = cache c (cacheKey c d')"
      by (simp add: cacheKey_cache_update)
    with that have "cache c (cacheKey c d') = Some k" by simp
    with assms have "k = spec_kSigning rt (secretKey c) (region c) d'"
      unfolding cacheSound_def by blast
    then show ?thesis by simp
  qed
  then show ?thesis unfolding c' cacheSound_def by blast
next
  case (Some k)
  with assms show ?thesis by (simp add: kCredentials_def)
qed

lemma kCredentials_stored:
  "cache (fst (snd (kCredentials rt c d))) (cacheKey c d) \<noteq> None"
  by (simp add: kCredentials_def Let_def split: option.splits)

lemma kCredentials_keeps:
  "cache c key \<noteq> None \<Longrightarrow> cache (fst (snd (kCredentials rt c d))) key = cache c key"
  by (auto simp: kCredentials_def Let_def split: option.splits)

lemma kCredentials_hit:
  "cache c (cacheKey c d) \<noteq> None \<Longrightarrow> snd (kCredentials rt c d) = (c, [])"
  by (auto simp: kCredentials_def split: option.splits)

lemma kCredentials_miss:
  "cache c (cacheKey c d) = None \<Longrightarrow>
   snd (snd (kCredentials rt c d)) =
     [(''AWS4'' @ secretKey c, d),
      (signHMAC rt (''AWS4'' @ secretKey c) d, region c),
      (signHMAC rt (signHMAC rt (''AWS4'' @ secretKey c) d) (region c), ''s3''),
      (signHMAC rt (signHMAC rt (signHMAC rt (''AWS4'' @ secretKey c) d) (region c)) ''s3'', ''aws4_request'')]"
  by (simp add: kCredentials_def Let_def)

lemma certify_fields:
  "accessKey (fst (snd (certify rt c now m u bh b))) = accessKey c"
  "secretKey (fst (snd (certify rt c now m u bh b))) = secretKey c"
  "region (fst (snd (certify rt c now m u bh b))) = region c"
  using certify_state [of rt c now m u bh b] kCredentials_fields [of rt c "take 8 (stripPunctuation now)"]
  by auto

lemma certify_sound:
  "cacheSound rt c \<Longrightarrow> cacheSound rt (fst (snd (certify rt c now m u bh b)))"
  using certify_state [of rt c now m u bh b] kCredentials_sound [of rt c "take 8 (stripPunctuation now)"]
  by auto

lemma certify_keeps:
  "cache c key \<noteq> None \<Longrightarrow> cache (fst (snd (certify rt c now m u bh b))) key = cache c key"
  using certify_state [of rt c now m u bh b] kCredentials_keeps [of c key rt "take 8 (stripPunctuation now)"]
  by auto

lemma certify_ok_state:
  assumes "\<not> isl (fst (certify rt c now m u bh b))"
  shows "fst (snd (certify rt c now m u bh b)) = fst (snd (kCredentials rt c (datestrOf now)))"
    and "\<exists>toSign. snd (snd (certify rt c now m u bh b))
           = snd (snd (kCredentials rt c (datestrOf now))) @ [(fst (kCredentials rt c (datestrOf now)), toSign)]"
proof -
  from assms obtain s where s: "fst (certify rt c now m u bh b) = Inr s"
    by (cases "fst (certify rt c now m u bh b)") auto
  from certify_signed_hash [OF s] obtain url hs where
    u: "newURL rt u = Some url" and hs: "prepareHeaders rt (stripPunctuation now) bh = Some hs"
    by blast
  obtain k c' d where k: "kCredentials rt c (take 8 (stripPunctuation now)) = (k, c', d)"
    by (cases "kCredentials rt c (take 8 (stripPunctuation now))") auto
  show "fst (snd (certify rt c now m u bh b)) = fst (snd (kCredentials rt c (datestrOf now)))"
    using certify_signedWith(2) [OF u hs k] k by (simp add: datestrOf_def)
  show "\<exists>toSign. snd (snd (certify rt c now m u bh b))
           = snd (snd (kCredentials rt c (datestrOf now))) @ [(fst (kCredentials rt c (datestrOf now)), toSign)]"
    using certify_calls [OF s] by (simp add: datestrOf_def)
qed

lemma afterCalls_fields:
  "accessKey (afterCalls rt c calls) = accessKey c
   \<and> secretKey (afterCalls rt c calls) = secretKey c
   \<and> region (afterCalls rt c calls) = region c"
  by (induction rt c calls rule: afterCalls.induct) (simp_all add: certify_fields)

lemma afterCalls_sound:
  "cacheSound rt c \<Longrightarrow> cacheSound rt (afterCalls rt c calls)"
  by (induction rt c calls rule: afterCalls.induct) (simp_all add: certify_sound)

lemma afterCalls_keeps:
  "cache c key \<noteq> None \<Longrightarrow> cache (afterCalls rt c calls) key = cache c key"
proof (induction rt c calls rule: afterCalls.induct)
  case (1 rt c)
  then show ?case by simp
next
  case (2 rt c now m url baseHeaders body rest)
  let ?c1 = "fst (snd (certify rt c now m url baseHeaders body))"
  have k: "cache ?c1 key = cache c key" using "2.prems" by (rule certify_keeps)
  with "2.prems" have "cache ?c1 key \<noteq> None" by simp
  from "2.IH" [OF this] k show ?case by simp
qed

lemma createCertifier_sound: "cacheSound rt (createCertifier ak sk r)"
  by (simp add: cacheSound_def createCertifier_def)

lemma spec_kSigning_inj:
  assumes n: "noCollision rt (set (chainCalls rt sk r d) \<union> set (chainCalls rt sk r d'))"
      and e: "spec_kSigning rt sk r d = spec_kSigning rt sk r d'"
  shows "d = d'"
proof -
  let ?S = "set (chainCalls rt sk r d) \<union> set (chainCalls rt sk r d')"
  have inj: "signHMAC rt k m = signHMAC rt k' m' \<Longrightarrow> (k, m) \<in> ?S \<Longrightarrow> (k', m') \<in> ?S
             \<Longrightarrow> k = k' \<and> m = m'" for k m k' m'
  proof -
    assume h: "signHMAC rt k m = signHMAC rt k' m'" and a: "(k, m) \<in> ?S" and b: "(k', m') \<in> ?S"
    from n have "inj_on (\<lambda>p. signHMAC rt (fst p) (snd p)) ?S" by (simp add: noCollision_def)
    from inj_onD [OF this _ a b] h show ?thesis by simp
  qed
  let ?a1 = "signHMAC rt (''AWS4'' @ sk) d" and ?b1 = "signHMAC rt (''AWS4'' @ sk) d'"
  let ?a2 = "signHMAC rt ?a1 r" and ?b2 = "signHMAC rt ?b1 r"
  let ?a3 = "signHMAC rt ?a2 ''s3''" and ?b3 = "signHMAC rt ?b2 ''s3''"
  have "signHMAC rt ?a3 ''aws4_request'' = signHMAC rt ?b3 ''aws4_request''"
    using e by (simp add: spec_kSigning_def)
  then have "?a3 = ?b3" using inj [of ?a3 "''aws4_request''" ?b3 "''aws4_request''"]
    by (simp add: chainCalls_def)
  then have "?a2 = ?b2" using inj [of ?a2 "''s3''" ?b2 "''s3''"]
    by (simp add: chainCalls_def)
  then have "?a1 = ?b1" using inj [of ?a1 r ?b1 r]
    by (simp add: chainCalls_def)
  then show "d = d'" using inj [of "''AWS4'' @ sk" d "''AWS4'' @ sk" d']
    by (simp add: chainCalls_def)
qed

lemma collisionFree_noCollision: "collisionFree (signHMAC rt) \<Longrightarrow> noCollision rt S"
  unfolding collisionFree_def noCollision_def inj_on_def by (metis prod.collapse)

lemma cacheKey_fields:
  "secretKey c' = secretKey c \<Longrightarrow> region c' = region c \<Longrightarrow> cacheKey c' d = cacheKey c d"
  by (simp add: cacheKey_def)

lemma replicate_prefix_eq:
  "replicate n CHR ''1'' @ CHR ''0'' # xs = replicate n' CHR ''1'' @ CHR ''0'' # ys
   \<Longrightarrow> n = n' \<and> xs = ys"
proof (induction n arbitrary: n')
  case 0
  then show ?case by (cases n') auto
next
  case (Suc n)
  then show ?case by (cases n') auto
qed

lemma prefixHMAC_collisionFree: "collisionFree prefixHMAC"
proof -
  have "k = k' \<and> m = m'" if "prefixHMAC k m = prefixHMAC k' m'" for k m k' m'
  proof -
    from that have "length k = length k' \<and> k @ m = k' @ m'"
      unfolding prefixHMAC_def by (rule replicate_prefix_eq)
    then show ?thesis by (metis append_eq_append_conv)
  qed
  then show ?thesis unfolding collisionFree_def by blast
qed

lemma datestrOf_iso:
  assumes "isDigit y1" "isDigit y2" "isDigit y3" "isDigit y4" "isDigit mA" "isDigit mB"
    "isDigit d1" "isDigit d2"
  shows "datestrOf ([y1, y2, y3, y4, CHR ''-'', mA, mB, CHR ''-'', d1, d2] @ rest)
           = [y1, y2, y3, y4, mA, mB, d1, d2]"
proof -
  have n: "c \<noteq> CHR '':'' \<and> c \<noteq> CHR ''-'' \<and> c \<noteq> CHR ''.''" if "isDigit c" for c
    using that by (auto simp: isDigit_def)
  show ?thesis using assms by (simp add: datestrOf_def n)
qed

text \<open>
  Claim C2. On one client, after any earlier signing calls, take two signing calls that
  succeed, with any calls between them. The key each signs with is the chain
  \<open>HMAC(HMAC(HMAC(HMAC("AWS4"+secretKey, dateStamp), region), "s3"), "aws4_request")\<close> for
  its date stamp; on a fresh client the first call computes the four HMACs of the chain.
  When the two calls bear the same date stamp, the second signs with the same key and
  makes one HMAC call only, the one that signs: none of the four derivations. With the
  same clock reading and the same request, the second call returns the same signed
  request. When the date stamps differ, the keys differ, provided HMAC does not collide
  on the inputs of the two chains. The date stamp of an ISO clock text that starts
  \<open>YYYY-MM-DD\<close> is \<open>YYYYMMDD\<close>, the UTC date.
\<close>

theorem signing_key_derivation_and_cache:
  fixes rt :: runtime and ak sk r nowA nowB uA uB :: string
    and earlier between :: "signingCall list" and mA mB :: HttpMethods
    and hA hB :: "(string \<times> string) list option" and bA bB :: "BodyInit option"
  defines "c \<equiv> afterCalls rt (createCertifier ak sk r) earlier"
  defines "first \<equiv> certify rt c nowA mA uA hA bA"
  defines "second \<equiv> certify rt (afterCalls rt (fst (snd first)) between) nowB mB uB hB bB"
  assumes "\<not> isl (fst first)" and "\<not> isl (fst second)"
  shows "fst (last (snd (snd first))) = spec_kSigning rt sk r (datestrOf nowA)
       \<and> fst (last (snd (snd second))) = spec_kSigning rt sk r (datestrOf nowB)
       \<and> (earlier = [] \<longrightarrow>
            butlast (snd (snd first)) = chainCalls rt sk r (datestrOf nowA))
       \<and> (datestrOf nowB = datestrOf nowA \<longrightarrow>
            fst (last (snd (snd second))) = fst (last (snd (snd first)))
            \<and> length (snd (snd second)) = 1)
       \<and> (nowB = nowA \<and> mB = mA \<and> uB = uA \<and> hB = hA \<and> bB = bA \<longrightarrow> fst second = fst first)
       \<and> (noCollision rt (set (chainCalls rt sk r (datestrOf nowA))
                            \<union> set (chainCalls rt sk r (datestrOf nowB)))
            \<and> datestrOf nowB \<noteq> datestrOf nowA \<longrightarrow>
            fst (last (snd (snd second))) \<noteq> fst (last (snd (snd first))))
       \<and> (isDigit y1 \<and> isDigit y2 \<and> isDigit y3 \<and> isDigit y4 \<and> isDigit n1 \<and> isDigit n2
            \<and> isDigit d1 \<and> isDigit d2 \<longrightarrow>
            datestrOf ([y1, y2, y3, y4, CHR ''-'', n1, n2, CHR ''-'', d1, d2] @ rest)
              = [y1, y2, y3, y4, n1, n2, d1, d2])"
proof -
  let ?c1 = "fst (snd first)"
  let ?c1' = "afterCalls rt ?c1 between"
  have fc: "accessKey c = ak \<and> secretKey c = sk \<and> region c = r"
    unfolding c_def using afterCalls_fields [of rt "createCertifier ak sk r" earlier]
    by (simp add: createCertifier_def)
  have sc: "cacheSound rt c"
    unfolding c_def by (rule afterCalls_sound [OF createCertifier_sound])
  have f1: "accessKey ?c1 = ak \<and> secretKey ?c1 = sk \<and> region ?c1 = r"
    unfolding first_def using certify_fields [of rt c nowA mA uA hA bA] fc by simp
  have s1: "cacheSound rt ?c1"
    unfolding first_def by (rule certify_sound [OF sc])
  have f1': "accessKey ?c1' = ak \<and> secretKey ?c1' = sk \<and> region ?c1' = r"
    using afterCalls_fields [of rt ?c1 between] f1 by simp
  have s1': "cacheSound rt ?c1'"
    by (rule afterCalls_sound [OF s1])
  have k1: "fst (kCredentials rt c (datestrOf nowA)) = spec_kSigning rt sk r (datestrOf nowA)"
    using kCredentials_key [OF sc] fc by simp
  have k2: "fst (kCredentials rt ?c1' (datestrOf nowB)) = spec_kSigning rt sk r (datestrOf nowB)"
    using kCredentials_key [OF s1'] f1' by simp
  from assms(4) obtain t1 where
    st1: "?c1 = fst (snd (kCredentials rt c (datestrOf nowA)))" and
    calls1: "snd (snd first) = snd (snd (kCredentials rt c (datestrOf nowA)))
               @ [(fst (kCredentials rt c (datestrOf nowA)), t1)]"
    unfolding first_def using certify_ok_state [of rt c nowA mA uA hA bA] by blast
  from assms(5) obtain t2 where
    calls2: "snd (snd second) = snd (snd (kCredentials rt ?c1' (datestrOf nowB)))
               @ [(fst (kCredentials rt ?c1' (datestrOf nowB)), t2)]"
    unfolding second_def using certify_ok_state [of rt ?c1' nowB mB uB hB bB] by blast
  have key1: "fst (last (snd (snd first))) = spec_kSigning rt sk r (datestrOf nowA)"
    using calls1 k1 by simp
  have key2: "fst (last (snd (snd second))) = spec_kSigning rt sk r (datestrOf nowB)"
    using calls2 k2 by simp
  have fresh: "butlast (snd (snd first)) = chainCalls rt sk r (datestrOf nowA)" if "earlier = []"
  proof -
    from that have "c = createCertifier ak sk r" by (simp add: c_def)
    then have "cache c (cacheKey c (datestrOf nowA)) = None" by (simp add: createCertifier_def)
    from kCredentials_miss [OF this] calls1 fc show ?thesis by (simp add: chainCalls_def)
  qed
  have hit: "length (snd (snd second)) = 1" if "datestrOf nowB = datestrOf nowA"
  proof -
    have "cache ?c1 (cacheKey c (datestrOf nowA)) \<noteq> None"
      unfolding st1 by (rule kCredentials_stored)
    then have "cache ?c1' (cacheKey c (datestrOf nowA)) \<noteq> None"
      using afterCalls_keeps [of ?c1 "cacheKey c (datestrOf nowA)" rt between] by simp
    moreover have "cacheKey ?c1' (datestrOf nowB) = cacheKey c (datestrOf nowA)"
      using that f1' fc by (simp add: cacheKey_def)
    ultimately have "cache ?c1' (cacheKey ?c1' (datestrOf nowB)) \<noteq> None" by simp
    from kCredentials_hit [OF this] calls2 show ?thesis by simp
  qed
  have same: "fst second = fst first"
    if "nowB = nowA \<and> mB = mA \<and> uB = uA \<and> hB = hA \<and> bB = bA"
  proof -
    have "fst (certify rt ?c1' nowA mA uA hA bA) = fst (certify rt c nowA mA uA hA bA)"
    proof (rule certify_key_only)
      show "accessKey ?c1' = accessKey c" using f1' fc by simp
      show "region ?c1' = region c" using f1' fc by simp
      show "fst (kCredentials rt ?c1' (take 8 (stripPunctuation nowA)))
          = fst (kCredentials rt c (take 8 (stripPunctuation nowA)))"
        using kCredentials_key [OF s1'] kCredentials_key [OF sc] f1' fc by simp
    qed
    with that show ?thesis by (simp add: first_def second_def)
  qed
  have differ: "fst (last (snd (snd second))) \<noteq> fst (last (snd (snd first)))"
    if "noCollision rt (set (chainCalls rt sk r (datestrOf nowA))
                            \<union> set (chainCalls rt sk r (datestrOf nowB)))
            \<and> datestrOf nowB \<noteq> datestrOf nowA"
  proof
    assume "fst (last (snd (snd second))) = fst (last (snd (snd first)))"
    with key1 key2
    have "spec_kSigning rt sk r (datestrOf nowA) = spec_kSigning rt sk r (datestrOf nowB)" by simp
    from spec_kSigning_inj [OF conjunct1 [OF that] this] that show False by simp
  qed
  have iso: "datestrOf ([y1, y2, y3, y4, CHR ''-'', n1, n2, CHR ''-'', d1, d2] @ rest)
              = [y1, y2, y3, y4, n1, n2, d1, d2]"
    if "isDigit y1 \<and> isDigit y2 \<and> isDigit y3 \<and> isDigit y4 \<and> isDigit n1 \<and> isDigit n2
            \<and> isDigit d1 \<and> isDigit d2"
    by (rule datestrOf_iso) (use that in simp_all)
  have keyeq: "fst (last (snd (snd second))) = fst (last (snd (snd first)))"
    if "datestrOf nowB = datestrOf nowA"
    using that key1 key2 by simp
  show ?thesis
  proof (intro conjI impI)
    show "fst (last (snd (snd first))) = spec_kSigning rt sk r (datestrOf nowA)" by (rule key1)
    show "fst (last (snd (snd second))) = spec_kSigning rt sk r (datestrOf nowB)" by (rule key2)
    show "butlast (snd (snd first)) = chainCalls rt sk r (datestrOf nowA)" if "earlier = []"
      using that by (rule fresh)
    show "fst (last (snd (snd second))) = fst (last (snd (snd first)))"
      if "datestrOf nowB = datestrOf nowA"
      using that by (rule keyeq)
    show "length (snd (snd second)) = 1" if "datestrOf nowB = datestrOf nowA"
      using that by (rule hit)
    show "fst second = fst first"
      if "nowB = nowA \<and> mB = mA \<and> uB = uA \<and> hB = hA \<and> bB = bA"
      using that by (rule same)
    show "fst (last (snd (snd second))) \<noteq> fst (last (snd (snd first)))"
      if "noCollision rt (set (chainCalls rt sk r (datestrOf nowA))
                            \<union> set (chainCalls rt sk r (datestrOf nowB)))
            \<and> datestrOf nowB \<noteq> datestrOf nowA"
      using that by (rule differ)
    show "datestrOf ([y1, y2, y3, y4, CHR ''-'', n1, n2, CHR ''-'', d1, d2] @ rest)
              = [y1, y2, y3, y4, n1, n2, d1, d2]"
      if "isDigit y1 \<and> isDigit y2 \<and> isDigit y3 \<and> isDigit y4 \<and> isDigit n1 \<and> isDigit n2
            \<and> isDigit d1 \<and> isDigit d2"
      using that by (rule iso)
  qed
qed

lemma headersSet_valid:
  "\<forall>n v. validHeader rt n v \<Longrightarrow> headersSet rt name v hs = Some (replaceFirst (toLowerCase name) v hs)"
  by (simp add: headersSet_def)

lemma prepareHeaders_valid:
  assumes "\<forall>n v. validHeader rt n v"
  shows "prepareHeaders rt datetime bh \<noteq> None"
  using assms by (simp add: prepareHeaders_def newHeaders_def headersSet_valid Let_def)

lemma certify_ok:
  assumes "newURL rt url \<noteq> None" and "\<forall>n v. validHeader rt n v"
  shows "\<not> isl (fst (certify rt c now m url bh b))"
proof -
  from assms(1) obtain u where u: "newURL rt url = Some u" by blast
  from prepareHeaders_valid [OF assms(2)] obtain hs where
    hs: "prepareHeaders rt (stripPunctuation now) bh = Some hs" by blast
  obtain k c' d where k: "kCredentials rt c (take 8 (stripPunctuation now)) = (k, c', d)"
    by (cases "kCredentials rt c (take 8 (stripPunctuation now))") auto
  from hashHeader_total [OF hs] obtain h where h: "hashHeader rt hs b = Inr h" by blast
  have "\<not> isl (signedWith rt c k (stripPunctuation now) m u hs b)"
    by (simp add: signedWith_def h headersSet_valid [OF assms(2)])
  with certify_signedWith(1) [OF u hs k] show ?thesis by simp
qed

lemma hmacRuntime_ok: "\<not> isl (fst (certify hmacRuntime c now m sampleURLText bh b))"
proof (rule certify_ok)
  show "newURL hmacRuntime sampleURLText \<noteq> None"
    by (simp add: hmacRuntime_def sampleRuntime_def sampleURL_def sampleURLText_def)
  show "\<forall>n v. validHeader hmacRuntime n v"
    by (simp add: hmacRuntime_def sampleRuntime_def)
qed

theorem signing_key_derivation_and_cache_witness:
  "isl (fst sampleFirst) = False \<and> isl (fst sampleAgain) = False
   \<and> isl (fst sampleSameDay) = False \<and> isl (fst sampleNextDay) = False
   \<and> datestrOf sampleNow = ''20261103''
   \<and> fst (last (snd (snd sampleFirst))) = spec_kSigning hmacRuntime ''SK'' ''auto'' ''20261103''
   \<and> length (snd (snd sampleFirst)) = 5
   \<and> fst sampleAgain = fst sampleFirst
   \<and> datestrOf ''2026-11-03T23:59:59.999Z'' = datestrOf sampleNow
   \<and> fst (last (snd (snd sampleSameDay))) = fst (last (snd (snd sampleFirst)))
   \<and> length (snd (snd sampleSameDay)) = 1
   \<and> noCollision hmacRuntime (set (chainCalls hmacRuntime ''SK'' ''auto'' (datestrOf sampleNow))
        \<union> set (chainCalls hmacRuntime ''SK'' ''auto'' (datestrOf ''2026-11-04T00:00:00.000Z'')))
   \<and> datestrOf ''2026-11-04T00:00:00.000Z'' \<noteq> datestrOf sampleNow
   \<and> fst (last (snd (snd sampleNextDay))) \<noteq> fst (last (snd (snd sampleFirst)))"
proof -
  have o1: "\<not> isl (fst sampleFirst)" unfolding sampleFirst_def by (rule hmacRuntime_ok)
  have o2: "\<not> isl (fst sampleAgain)" unfolding sampleAgain_def by (rule hmacRuntime_ok)
  have o3: "\<not> isl (fst sampleSameDay)" unfolding sampleSameDay_def by (rule hmacRuntime_ok)
  have o4: "\<not> isl (fst sampleNextDay)" unfolding sampleNextDay_def by (rule hmacRuntime_ok)
  have d1: "datestrOf sampleNow = ''20261103''" by code_simp
  have d2: "datestrOf ''2026-11-03T23:59:59.999Z'' = datestrOf sampleNow" by code_simp
  have d3: "datestrOf ''2026-11-04T00:00:00.000Z'' \<noteq> datestrOf sampleNow" by code_simp
  have "collisionFree (signHMAC hmacRuntime)"
    using prefixHMAC_collisionFree by (simp add: hmacRuntime_def sampleRuntime_def)
  then have cf: "noCollision hmacRuntime (set (chainCalls hmacRuntime ''SK'' ''auto'' (datestrOf sampleNow))
        \<union> set (chainCalls hmacRuntime ''SK'' ''auto'' (datestrOf ''2026-11-04T00:00:00.000Z'')))"
    by (rule collisionFree_noCollision)
  note t = signing_key_derivation_and_cache [where rt = hmacRuntime and ak = "''AK''" and sk = "''SK''"
      and r = "''auto''" and earlier = "[]" and between = "[]" and nowA = sampleNow and mA = PUT
      and uA = sampleURLText and hA = None and bA = "Some (StringBody ''{}'')"
      and uB = sampleURLText and hB = None, unfolded afterCalls.simps(1)]
  have a: "fst (last (snd (snd sampleFirst))) = spec_kSigning hmacRuntime ''SK'' ''auto'' ''20261103''
      \<and> length (snd (snd sampleFirst)) = 5 \<and> fst sampleAgain = fst sampleFirst"
  proof -
    from t [where nowB = sampleNow and mB = PUT and bB = "Some (StringBody ''{}'')"] o1 o2
    have k: "fst (last (snd (snd sampleFirst))) = spec_kSigning hmacRuntime ''SK'' ''auto'' (datestrOf sampleNow)"
      and b: "butlast (snd (snd sampleFirst)) = chainCalls hmacRuntime ''SK'' ''auto'' (datestrOf sampleNow)"
      and s: "fst sampleAgain = fst sampleFirst"
      by (simp_all add: sampleFirst_def sampleAgain_def)
    from o1 have "snd (snd sampleFirst) \<noteq> []"
      using certify_ok_state(2) [of hmacRuntime "createCertifier ''AK'' ''SK'' ''auto''" sampleNow PUT
          sampleURLText None "Some (StringBody ''{}'')"]
      by (auto simp: sampleFirst_def)
    moreover from b have "length (butlast (snd (snd sampleFirst))) = 4" by (simp add: chainCalls_def)
    ultimately have "length (snd (snd sampleFirst)) = 5" by (simp add: length_butlast)
    with k s d1 show ?thesis by simp
  qed
  have b: "fst (last (snd (snd sampleSameDay))) = fst (last (snd (snd sampleFirst)))
      \<and> length (snd (snd sampleSameDay)) = 1"
    using t [where nowB = "''2026-11-03T23:59:59.999Z''" and mB = GET and bB = None] o1 o3 d2
    by (simp add: sampleFirst_def sampleSameDay_def)
  have c: "fst (last (snd (snd sampleNextDay))) \<noteq> fst (last (snd (snd sampleFirst)))"
    unfolding sampleFirst_def sampleNextDay_def
    using t [where nowB = "''2026-11-04T00:00:00.000Z''" and mB = GET and bB = None]
      o1 [unfolded sampleFirst_def] o4 [unfolded sampleNextDay_def sampleFirst_def] d3 cf
    by blast
  from o1 o2 o3 o4 d1 d2 d3 cf a b c show ?thesis by simp
qed

section \<open>Properties of the listing\<close>













lemma wellFormed_ascii: "\<forall>c \<in> set s. of_char c < (0x80 :: nat) \<Longrightarrow> wellFormed s"
  by (induction s) simp_all
























end
